theory Spec2Isabelle
  imports Main "HOL-Library.Sublist"
begin

section \<open>Data model of nlgeval\<close>

text \<open>
  The module \<^verbatim>\<open>nlgeval/__init__.py\<close> orchestrates five external scorers. The scorers
  themselves (\<^verbatim>\<open>Bleu\<close>, \<^verbatim>\<open>Meteor\<close>, \<^verbatim>\<open>Rouge\<close>, \<^verbatim>\<open>Cider\<close>, \<^verbatim>\<open>Spice\<close>) live in other packages; here a
  scorer object is the constructor call that made it, and what its \<^verbatim>\<open>compute_score\<close>
  returns is a parameter of every evaluation function.

  A Python string is a \<open>string\<close> whose characters are code points below 256.
\<close>

datatype scorer = Bleu nat | Meteor | Rouge | Cider | Spice

text \<open>The second component of a descriptor is a list of names or a single name.\<close>

datatype method_names = Names "string list" | Name string

type_synonym descriptor = "scorer \<times> method_names"

text \<open>What \<^verbatim>\<open>compute_score\<close> returns first: one number or a sequence of numbers.\<close>

datatype 'v score = Scalar 'v | Vector "'v list"

datatype error = AssertionError | TypeError | IOError | MetricError string

text \<open>
  A dict built by a comprehension over \<^verbatim>\<open>enumerate\<close> (or the literal \<^verbatim>\<open>{0: x}\<close>) has
  pairwise distinct keys, so it is the list of its items in insertion order and
  \<^verbatim>\<open>len\<close> is the length of that list.
\<close>

type_synonym 'a dict = "(nat \<times> 'a) list"

text \<open>
  The calls this layer makes on the outside world, in the order they happen. The
  history is the only state: an external scorer may answer differently depending on
  everything that happened before.
\<close>

datatype 'v event =
    Compute scorer "string list dict" "string list dict"
  | Close scorer
  | Print string 'v

type_synonym 'v compute_score =
  "'v event list \<Rightarrow> scorer \<Rightarrow> string list dict \<Rightarrow> string list dict \<Rightarrow> error + 'v score"

type_synonym 'v report = "string \<rightharpoonup> 'v score"

text \<open>An argument that the source tests with \<^verbatim>\<open>isinstance(_, six.string_types)\<close>.\<close>

datatype arg = Str string | Seq "string list"

section \<open>Strings\<close>

text \<open>
  \<^verbatim>\<open>str.strip()\<close> without argument removes leading and trailing whitespace; below 256
  the whitespace code points are 9 to 13, 28 to 32, 133 and 160.
\<close>

definition is_space :: "char \<Rightarrow> bool" where
  "is_space c =
     (let n = (of_char c :: nat)
      in (9 \<le> n \<and> n \<le> 13) \<or> (28 \<le> n \<and> n \<le> 32) \<or> n = 133 \<or> n = 160)"

definition str_strip :: "string \<Rightarrow> string" where
  "str_strip s = rev (dropWhile is_space (rev (dropWhile is_space s)))"

text \<open>\<^verbatim>\<open>def _strip(s): return s.strip()\<close>\<close>

definition strip :: "string \<Rightarrow> string" where
  "strip s = str_strip s"

text \<open>
  \<^verbatim>\<open>str.split(sep)\<close> for a separator: scan from the left, cut at every occurrence,
  resume after it. The accumulator holds the piece being read. (Python raises on an
  empty separator; the only separator of the source is a literal of length 7.)
\<close>

fun split_acc :: "string \<Rightarrow> string \<Rightarrow> string \<Rightarrow> string list" where
  "split_acc sep acc [] = [acc]"
| "split_acc sep acc (c # cs) =
     (if sep \<noteq> [] \<and> prefix sep (c # cs)
      then acc # split_acc sep [] (drop (length sep) (c # cs))
      else split_acc sep (acc @ [c]) cs)"

definition str_split :: "string \<Rightarrow> string \<Rightarrow> string list" where
  "str_split s sep = split_acc sep [] s"

definition delimiter :: string where
  "delimiter = ''||<|>||''"

text \<open>\<^verbatim>\<open>'Bleu_{}'.format(i)\<close>: the decimal digits of \<open>i\<close>.\<close>

fun format_nat :: "nat \<Rightarrow> string" where
  "format_nat n =
     (if n < 10 then [''0123456789'' ! n]
      else format_nat (n div 10) @ [''0123456789'' ! (n mod 10)])"

declare format_nat.simps [simp del]

definition bleu_name :: "nat \<Rightarrow> string" where
  "bleu_name i = ''Bleu_'' @ format_nat i"

text \<open>
  \<^verbatim>\<open>zip(*ref_list)\<close>: the i-th tuple holds the i-th item of every source; it stops as
  soon as one source is exhausted, and with no source at all it yields nothing.
\<close>

function zip_star :: "'a list list \<Rightarrow> 'a list list" where
  "zip_star xss =
     (if xss = [] \<or> [] \<in> set xss then []
      else map hd xss # zip_star (map tl xss))"
  by pat_completeness auto
termination
proof (relation "measure (\<lambda>xss. length (hd xss))")
  show "wf (measure (\<lambda>xss::'a list list. length (hd xss)))" by simp
next
  fix xss :: "'a list list"
  assume "\<not> (xss = [] \<or> [] \<in> set xss)"
  then obtain x xs where "xss = x # xs" "x \<noteq> []"
    by (cases xss) auto
  then show "(map tl xss, xss) \<in> measure (\<lambda>xss. length (hd xss))"
    by simp
qed

declare zip_star.simps [simp del]

section \<open>The scoring loop\<close>

text \<open>
  The inner loop \<^verbatim>\<open>for sc, m in zip(score, method): ret_scores[m] = sc\<close>; the legacy
  batch function prints each pair first.
\<close>

fun store_vector ::
  "bool \<Rightarrow> ('v \<times> string) list \<Rightarrow> 'v report \<Rightarrow> 'v event list \<Rightarrow> 'v report \<times> 'v event list"
where
  "store_vector printing [] ret t = (ret, t)"
| "store_vector printing ((sc, m) # rest) ret t =
     store_vector printing rest (ret(m \<mapsto> Scalar sc))
       (if printing then t @ [Print m sc] else t)"

text \<open>
  The body of the outer loop after \<^verbatim>\<open>compute_score\<close> has returned. \<^verbatim>\<open>zip\<close> on a number
  raises a type error, and so does the format \<^verbatim>\<open>%0.6f\<close> on a sequence; without printing
  the scalar branch stores whatever the scorer returned.
\<close>

definition store ::
  "bool \<Rightarrow> method_names \<Rightarrow> 'v score \<Rightarrow> 'v report \<Rightarrow> 'v event list
     \<Rightarrow> (error + 'v report) \<times> 'v event list"
where
  "store printing method score ret t =
     (case method of
        Names ms \<Rightarrow>
          (case score of
             Vector scs \<Rightarrow>
               (case store_vector printing (zip scs ms) ret t of (ret', t') \<Rightarrow> (Inr ret', t'))
           | Scalar v \<Rightarrow> (Inl TypeError, t))
      | Name m \<Rightarrow>
          (if printing
           then (case score of
                   Scalar v \<Rightarrow> (Inr (ret(m \<mapsto> score)), t @ [Print m v])
                 | Vector scs \<Rightarrow> (Inl TypeError, t))
           else (Inr (ret(m \<mapsto> score)), t)))"

text \<open>
  \<^verbatim>\<open>for scorer, method in scorers: ...\<close>, written four times in the source. The two
  legacy functions end the body with \<^verbatim>\<open>if isinstance(scorer, Meteor): scorer.close()\<close>
  (\<open>closing\<close>); the legacy batch function also prints (\<open>printing\<close>); the two methods of
  \<^verbatim>\<open>NLGEval\<close> do neither. An exception leaves the loop at once: nothing catches it.
\<close>

fun run_scorers ::
  "'v compute_score \<Rightarrow> bool \<Rightarrow> bool \<Rightarrow> descriptor list
     \<Rightarrow> string list dict \<Rightarrow> string list dict \<Rightarrow> 'v report \<Rightarrow> 'v event list
     \<Rightarrow> (error + 'v report) \<times> 'v event list"
where
  "run_scorers cs printing closing [] refs hyps ret t = (Inr ret, t)"
| "run_scorers cs printing closing ((scorer, method) # rest) refs hyps ret t =
     (case cs t scorer refs hyps of
        Inl e \<Rightarrow> (Inl e, t @ [Compute scorer refs hyps])
      | Inr score \<Rightarrow>
          (case store printing method score ret (t @ [Compute scorer refs hyps]) of
             (Inl e, t') \<Rightarrow> (Inl e, t')
           | (Inr ret', t') \<Rightarrow>
               run_scorers cs printing closing rest refs hyps ret'
                 (if closing \<and> scorer = Meteor then t' @ [Close scorer] else t')))"

section \<open>The legacy module-level functions\<close>

definition legacy_scorers :: "descriptor list" where
  "legacy_scorers =
     [(Bleu 4, Names [''Bleu_1'', ''Bleu_2'', ''Bleu_3'', ''Bleu_4'']),
      (Meteor, Name ''METEOR''),
      (Rouge, Name ''ROUGE_L''),
      (Cider, Name ''CIDEr''),
      (Spice, Name ''SPICE'')]"

text \<open>
  Files: a path names the list of its lines, or nothing. \<^verbatim>\<open>open\<close> raises on a path
  that names nothing.
\<close>

type_synonym files = "string \<rightharpoonup> string list"

definition readlines :: "files \<Rightarrow> string \<Rightarrow> error + string list" where
  "readlines fs path = (case fs path of None \<Rightarrow> Inl IOError | Some ls \<Rightarrow> Inr ls)"

fun read_references :: "files \<Rightarrow> string list \<Rightarrow> string list list \<Rightarrow> error + string list list" where
  "read_references fs [] ref_list = Inr ref_list"
| "read_references fs (reference # rest) ref_list =
     (case readlines fs reference of
        Inl e \<Rightarrow> Inl e
      | Inr ls \<Rightarrow> read_references fs rest (ref_list @ [ls]))"

text \<open>
  \<^verbatim>\<open>compute_metrics(hypothesis, references)\<close> and \<^verbatim>\<open>compute_individual_metrics(ref, hyp)\<close>.
  The scorer objects are built after the assertion and dropped by \<^verbatim>\<open>del scorers\<close> after the
  loop. Building and dropping call nothing that this module defines, so they leave no
  event; what the interpreter does when it collects a dropped object is not part of
  the model.
\<close>

definition compute_metrics ::
  "'v compute_score \<Rightarrow> files \<Rightarrow> string \<Rightarrow> string list \<Rightarrow> 'v event list
     \<Rightarrow> (error + 'v report) \<times> 'v event list"
where
  "compute_metrics cs fs hypothesis references t =
     (case readlines fs hypothesis of
        Inl e \<Rightarrow> (Inl e, t)
      | Inr hyp_list \<Rightarrow>
          (case read_references fs references [] of
             Inl e \<Rightarrow> (Inl e, t)
           | Inr ref_list0 \<Rightarrow>
               (let ref_list = map (map strip) (zip_star ref_list0);
                    refs = enumerate 0 ref_list;
                    hyps = enumerate 0 (map (\<lambda>lines. [str_strip lines]) hyp_list)
                in if length refs \<noteq> length hyps then (Inl AssertionError, t)
                   else run_scorers cs True True legacy_scorers refs hyps Map.empty t)))"

definition compute_individual_metrics ::
  "'v compute_score \<Rightarrow> arg \<Rightarrow> arg \<Rightarrow> 'v event list \<Rightarrow> (error + 'v report) \<times> 'v event list"
where
  "compute_individual_metrics cs ref hyp t =
     (case hyp of
        Seq _ \<Rightarrow> (Inl AssertionError, t)
      | Str h \<Rightarrow>
          (let ref1 = (case ref of Str s \<Rightarrow> str_split s delimiter | Seq xs \<Rightarrow> xs);
               ref2 = map str_strip ref1;
               refs = [(0, ref2)];
               hyps = [(0, [str_strip h])]
           in run_scorers cs False True legacy_scorers refs hyps Map.empty t))"

section \<open>The class NLGEval\<close>

definition valid_metrics :: "string set" where
  "valid_metrics =
     {''Bleu_1'', ''Bleu_2'', ''Bleu_3'', ''Bleu_4'', ''METEOR'', ''ROUGE_L'', ''CIDEr'', ''SPICE''}"

record nlgeval =
  metrics_to_omit :: "string set"
  scorers :: "descriptor list"

text \<open>
  \<^verbatim>\<open>for i in range(1, 4 + 1)\<close> with its \<^verbatim>\<open>break\<close>: the result is the flag \<^verbatim>\<open>omit_bleu_i\<close>
  and what the loop appended.
\<close>

fun bleu_loop :: "string set \<Rightarrow> nat list \<Rightarrow> bool \<times> descriptor list" where
  "bleu_loop omit [] = (False, [])"
| "bleu_loop omit (i # rest) =
     (if bleu_name i \<in> omit
      then (True, if i > 1 then [(Bleu (i - 1), Names (map bleu_name [1..<i]))] else [])
      else bleu_loop omit rest)"

definition load_scorers :: "nlgeval \<Rightarrow> nlgeval" where
  "load_scorers self =
     (let omit = metrics_to_omit self;
          (omit_bleu_i, s1) = bleu_loop omit [1..<4 + 1];
          s2 = (if \<not> omit_bleu_i
                then s1 @ [(Bleu 4, Names [''Bleu_1'', ''Bleu_2'', ''Bleu_3'', ''Bleu_4''])]
                else s1);
          s3 = (if ''METEOR'' \<notin> omit then s2 @ [(Meteor, Name ''METEOR'')] else s2);
          s4 = (if ''ROUGE_L'' \<notin> omit then s3 @ [(Rouge, Name ''ROUGE_L'')] else s3);
          s5 = (if ''CIDEr'' \<notin> omit then s4 @ [(Cider, Name ''CIDEr'')] else s4);
          s6 = (if ''SPICE'' \<notin> omit then s5 @ [(Spice, Name ''SPICE'')] else s5)
      in self\<lparr>scorers := s6\<rparr>)"

text \<open>\<^verbatim>\<open>NLGEval.__init__(self, metrics_to_omit=None)\<close>\<close>

definition NLGEval_init :: "string list option \<Rightarrow> error + nlgeval" where
  "NLGEval_init arg =
     (let omit = (case arg of None \<Rightarrow> {} | Some xs \<Rightarrow> set xs)
      in if card (omit - valid_metrics) \<noteq> 0 then Inl AssertionError
         else Inr (load_scorers \<lparr>metrics_to_omit = omit, scorers = []\<rparr>))"

text \<open>
  \<^verbatim>\<open>NLGEval.compute_individual_metrics(self, ref, hyp)\<close>. There is no test of \<^verbatim>\<open>ref\<close>: the
  comprehension walks a string character by character.
\<close>

definition NLGEval_compute_individual_metrics ::
  "'v compute_score \<Rightarrow> nlgeval \<Rightarrow> arg \<Rightarrow> arg \<Rightarrow> 'v event list
     \<Rightarrow> (error + 'v report) \<times> 'v event list"
where
  "NLGEval_compute_individual_metrics cs self ref hyp t =
     (case hyp of
        Seq _ \<Rightarrow> (Inl AssertionError, t)
      | Str h \<Rightarrow>
          (let ref' = (case ref of
                         Str s \<Rightarrow> map (\<lambda>a. str_strip [a]) s
                       | Seq xs \<Rightarrow> map str_strip xs);
               refs = [(0, ref')];
               hyps = [(0, [str_strip h])]
           in run_scorers cs False False (scorers self) refs hyps Map.empty t))"

text \<open>\<^verbatim>\<open>NLGEval.compute_metrics(self, ref_list, hyp_list)\<close>\<close>

definition NLGEval_compute_metrics ::
  "'v compute_score \<Rightarrow> nlgeval \<Rightarrow> string list list \<Rightarrow> string list \<Rightarrow> 'v event list
     \<Rightarrow> (error + 'v report) \<times> 'v event list"
where
  "NLGEval_compute_metrics cs self ref_list hyp_list t =
     (let ref_list' = map (map strip) (zip_star ref_list);
          refs = enumerate 0 ref_list';
          hyps = enumerate 0 (map (\<lambda>lines. [str_strip lines]) hyp_list)
      in if length refs \<noteq> length hyps then (Inl AssertionError, t)
         else run_scorers cs False False (scorers self) refs hyps Map.empty t)"

section \<open>Observing a call\<close>

text \<open>
  Vocabulary for the properties below: the events a call appended to the history, the
  names a descriptor declares, the calls a pass over a descriptor list makes when no
  scorer fails, and the two assumptions on the external scorers that the properties
  name (answers that do not depend on the history; one score per declared name).
\<close>

fun is_print :: "'v event \<Rightarrow> bool" where
  "is_print (Print m v) = True"
| "is_print e = False"

fun is_close :: "'v event \<Rightarrow> bool" where
  "is_close (Close s) = True"
| "is_close e = False"

definition new_events :: "'v event list \<Rightarrow> 'v event list \<Rightarrow> 'v event list" where
  "new_events t t' = drop (length t) t'"

fun names_of :: "method_names \<Rightarrow> string list" where
  "names_of (Names ms) = ms"
| "names_of (Name m) = [m]"

text \<open>\<^verbatim>\<open>sep.join(pieces)\<close>, to say what a split is.\<close>

fun str_join :: "string \<Rightarrow> string list \<Rightarrow> string" where
  "str_join sep [] = []"
| "str_join sep [x] = x"
| "str_join sep (x # y # ys) = x @ sep @ str_join sep (y # ys)"

definition history_independent :: "'v compute_score \<Rightarrow> bool" where
  "history_independent cs = (\<forall>t t' s refs hyps. cs t s refs hyps = cs t' s refs hyps)"

definition honours_contract :: "'v compute_score \<Rightarrow> descriptor list \<Rightarrow> bool" where
  "honours_contract cs ds =
     (\<forall>t refs hyps. \<forall>(s, m) \<in> set ds.
        case cs t s refs hyps of
          Inl e \<Rightarrow> False
        | Inr (Scalar v) \<Rightarrow> (\<exists>n. m = Name n)
        | Inr (Vector vs) \<Rightarrow> (\<exists>ns. m = Names ns \<and> length vs = length ns))"

definition declared_names :: "descriptor list \<Rightarrow> string set" where
  "declared_names ds = (\<Union>(s, m) \<in> set ds. set (names_of m))"

definition expected_calls ::
  "bool \<Rightarrow> descriptor list \<Rightarrow> string list dict \<Rightarrow> string list dict \<Rightarrow> 'v event list" where
  "expected_calls closing ds refs hyps =
     concat (map (\<lambda>(s, m). Compute s refs hyps # (if closing \<and> s = Meteor then [Close s] else [])) ds)"

section \<open>Construction of the evaluator\<close>

lemma bleu_name_simps:
  "bleu_name 1 = ''Bleu_1''" "bleu_name 2 = ''Bleu_2''"
  "bleu_name 3 = ''Bleu_3''" "bleu_name 4 = ''Bleu_4''"
  "bleu_name (Suc 0) = ''Bleu_1''"
  by (simp_all add: bleu_name_def format_nat.simps)

lemma bleu_names_upto:
  "map bleu_name [1..<2] = [''Bleu_1'']"
  "map bleu_name [1..<3] = [''Bleu_1'', ''Bleu_2'']"
  "map bleu_name [1..<4] = [''Bleu_1'', ''Bleu_2'', ''Bleu_3'']"
  "map bleu_name [1..<5] = [''Bleu_1'', ''Bleu_2'', ''Bleu_3'', ''Bleu_4'']"
  "map bleu_name [Suc 0..<2] = [''Bleu_1'']"
  "map bleu_name [Suc 0..<3] = [''Bleu_1'', ''Bleu_2'']"
  "map bleu_name [Suc 0..<4] = [''Bleu_1'', ''Bleu_2'', ''Bleu_3'']"
  "map bleu_name [Suc 0..<5] = [''Bleu_1'', ''Bleu_2'', ''Bleu_3'', ''Bleu_4'']"
  by (simp_all add: bleu_name_def format_nat.simps upt_rec)

lemma bleu_loop_range:
  "bleu_loop S [Suc 0..<5] =
    (if ''Bleu_1'' \<in> S then (True, [])
     else if ''Bleu_2'' \<in> S then (True, [(Bleu 1, Names [''Bleu_1''])])
     else if ''Bleu_3'' \<in> S then (True, [(Bleu 2, Names [''Bleu_1'', ''Bleu_2''])])
     else if ''Bleu_4'' \<in> S then (True, [(Bleu 3, Names [''Bleu_1'', ''Bleu_2'', ''Bleu_3''])])
     else (False, []))"
  by (simp add: bleu_name_def format_nat.simps upt_rec)

lemma tier_cases: "1 \<le> i \<Longrightarrow> i \<le> 4 \<Longrightarrow> i = 1 \<or> i = 2 \<or> i = 3 \<or> i = (4::nat)"
  by arith

lemma bleu_loop_no_omission:
  assumes "\<forall>i. 1 \<le> i \<and> i \<le> 4 \<longrightarrow> bleu_name i \<notin> S"
  shows "bleu_loop S [1..<4 + 1] = (False, [])"
proof -
  have "bleu_name 1 \<notin> S" "bleu_name 2 \<notin> S" "bleu_name 3 \<notin> S" "bleu_name 4 \<notin> S"
    using assms by simp_all
  then show ?thesis
    by (simp add: bleu_loop_range bleu_name_simps)
qed

lemma bleu_loop_first_omitted:
  assumes "1 \<le> i" "i \<le> 4" and om: "bleu_name i \<in> S"
    and low: "\<forall>j. 1 \<le> j \<and> j < i \<longrightarrow> bleu_name j \<notin> S"
  shows "bleu_loop S [1..<4 + 1] =
    (True, if i = 1 then [] else [(Bleu (i - 1), Names (map bleu_name [1..<i]))])"
proof -
  consider "i = 1" | "i = 2" | "i = 3" | "i = 4"
    using tier_cases [OF assms(1,2)] by blast
  then show ?thesis
  proof cases
    case 1
    with om show ?thesis by (simp add: bleu_loop_range bleu_name_simps)
  next
    case 2
    with low have "bleu_name 1 \<notin> S" by simp
    with 2 om show ?thesis by (simp add: bleu_loop_range bleu_name_simps bleu_names_upto)
  next
    case 3
    with low have "bleu_name 1 \<notin> S" "bleu_name 2 \<notin> S" by simp_all
    with 3 om show ?thesis by (simp add: bleu_loop_range bleu_name_simps bleu_names_upto)
  next
    case 4
    with low have "bleu_name 1 \<notin> S" "bleu_name 2 \<notin> S" "bleu_name 3 \<notin> S" by simp_all
    with 4 om show ?thesis by (simp add: bleu_loop_range bleu_name_simps bleu_names_upto)
  qed
qed

lemma load_scorers_eq:
  "load_scorers self = self\<lparr>scorers :=
     (case bleu_loop (metrics_to_omit self) [1..<4 + 1] of
        (omit_bleu_i, s1) \<Rightarrow>
          (if omit_bleu_i then s1
           else s1 @ [(Bleu 4, Names [''Bleu_1'', ''Bleu_2'', ''Bleu_3'', ''Bleu_4''])])
          @ map (\<lambda>(s, n). (s, Name n))
              (filter (\<lambda>(s, n). n \<notin> metrics_to_omit self)
                 [(Meteor, ''METEOR''), (Rouge, ''ROUGE_L''), (Cider, ''CIDEr''), (Spice, ''SPICE'')]))\<rparr>"
  unfolding load_scorers_def Let_def by (simp split: prod.split)

lemma init_valid:
  "set xs \<subseteq> valid_metrics \<Longrightarrow>
     NLGEval_init (Some xs) = Inr (load_scorers \<lparr>metrics_to_omit = set xs, scorers = []\<rparr>)"
  by (simp add: NLGEval_init_def Let_def card_gt_0_iff)

lemma init_invalid:
  "\<not> set xs \<subseteq> valid_metrics \<Longrightarrow> NLGEval_init (Some xs) = Inl AssertionError"
  by (simp add: NLGEval_init_def Let_def card_gt_0_iff)

text \<open>
  C1. Omission cascade. For an omission set within the catalog whose lowest omitted Bleu
  tier is \<open>i\<close> (whatever higher tiers it names too), construction yields the list
  whose Bleu descriptor is \<^verbatim>\<open>Bleu(i - 1)\<close> with the names of tiers 1 to \<open>i - 1\<close>, and no
  Bleu descriptor at all when \<open>i = 1\<close>; with no tier omitted the descriptor covers tiers
  1 to 4. After it come METEOR, ROUGE_L, CIDEr and SPICE, in that order, each one
  present exactly when its name is not in the omission set.
\<close>

theorem load_scorers_omission_cascade:
  assumes valid: "set xs \<subseteq> valid_metrics"
  shows "(\<forall>i. 1 \<le> i \<and> i \<le> 4 \<and> bleu_name i \<in> set xs
               \<and> (\<forall>j. 1 \<le> j \<and> j < i \<longrightarrow> bleu_name j \<notin> set xs) \<longrightarrow>
            NLGEval_init (Some xs) = Inr \<lparr>metrics_to_omit = set xs, scorers =
              (if i = 1 then [] else [(Bleu (i - 1), Names (map bleu_name [1..<i]))])
              @ map (\<lambda>(s, n). (s, Name n))
                  (filter (\<lambda>(s, n). n \<notin> set xs)
                     [(Meteor, ''METEOR''), (Rouge, ''ROUGE_L''),
                      (Cider, ''CIDEr''), (Spice, ''SPICE'')])\<rparr>)
       \<and> ((\<forall>i. 1 \<le> i \<and> i \<le> 4 \<longrightarrow> bleu_name i \<notin> set xs) \<longrightarrow>
            NLGEval_init (Some xs) = Inr \<lparr>metrics_to_omit = set xs, scorers =
              [(Bleu 4, Names (map bleu_name [1..<5]))]
              @ map (\<lambda>(s, n). (s, Name n))
                  (filter (\<lambda>(s, n). n \<notin> set xs)
                     [(Meteor, ''METEOR''), (Rouge, ''ROUGE_L''),
                      (Cider, ''CIDEr''), (Spice, ''SPICE'')])\<rparr>)"
proof (intro conjI allI impI)
  fix i
  assume h: "1 \<le> i \<and> i \<le> 4 \<and> bleu_name i \<in> set xs
               \<and> (\<forall>j. 1 \<le> j \<and> j < i \<longrightarrow> bleu_name j \<notin> set xs)"
  then have "bleu_loop (set xs) [1..<4 + 1] =
      (True, if i = 1 then [] else [(Bleu (i - 1), Names (map bleu_name [1..<i]))])"
    by (intro bleu_loop_first_omitted) simp_all
  then show "NLGEval_init (Some xs) = Inr \<lparr>metrics_to_omit = set xs, scorers =
              (if i = 1 then [] else [(Bleu (i - 1), Names (map bleu_name [1..<i]))])
              @ map (\<lambda>(s, n). (s, Name n))
                  (filter (\<lambda>(s, n). n \<notin> set xs)
                     [(Meteor, ''METEOR''), (Rouge, ''ROUGE_L''),
                      (Cider, ''CIDEr''), (Spice, ''SPICE'')])\<rparr>"
    by (simp add: init_valid [OF valid] load_scorers_eq)
next
  assume "\<forall>i. 1 \<le> i \<and> i \<le> 4 \<longrightarrow> bleu_name i \<notin> set xs"
  then have "bleu_loop (set xs) [1..<4 + 1] = (False, [])"
    by (rule bleu_loop_no_omission)
  then show "NLGEval_init (Some xs) = Inr \<lparr>metrics_to_omit = set xs, scorers =
              [(Bleu 4, Names (map bleu_name [1..<5]))]
              @ map (\<lambda>(s, n). (s, Name n))
                  (filter (\<lambda>(s, n). n \<notin> set xs)
                     [(Meteor, ''METEOR''), (Rouge, ''ROUGE_L''),
                      (Cider, ''CIDEr''), (Spice, ''SPICE'')])\<rparr>"
    by (simp add: init_valid [OF valid] load_scorers_eq bleu_names_upto)
qed

text \<open>
  The cascade at work: omitting tiers 3 and 4 and CIDEr leaves Bleu on tiers 1 and 2
  and three scalar metrics.
\<close>

theorem load_scorers_omission_cascade_witness:
  "NLGEval_init (Some [''Bleu_3'', ''CIDEr'', ''Bleu_4'']) =
     Inr \<lparr>metrics_to_omit = {''Bleu_3'', ''CIDEr'', ''Bleu_4''},
          scorers = [(Bleu 2, Names [''Bleu_1'', ''Bleu_2'']), (Meteor, Name ''METEOR''),
                     (Rouge, Name ''ROUGE_L''), (Spice, Name ''SPICE'')]\<rparr>"
proof -
  have v: "set [''Bleu_3'', ''CIDEr'', ''Bleu_4''] \<subseteq> valid_metrics"
    by (simp add: valid_metrics_def)
  have low: "\<forall>j. 1 \<le> j \<and> j < 3 \<longrightarrow> bleu_name j \<notin> set [''Bleu_3'', ''CIDEr'', ''Bleu_4'']"
  proof (intro allI impI)
    fix j :: nat
    assume "1 \<le> j \<and> j < 3"
    then have "j = 1 \<or> j = 2" by arith
    then show "bleu_name j \<notin> set [''Bleu_3'', ''CIDEr'', ''Bleu_4'']"
      by (auto simp: bleu_name_simps)
  qed
  have h: "1 \<le> (3::nat) \<and> (3::nat) \<le> 4 \<and> bleu_name 3 \<in> set [''Bleu_3'', ''CIDEr'', ''Bleu_4'']
      \<and> (\<forall>j. 1 \<le> j \<and> j < 3 \<longrightarrow> bleu_name j \<notin> set [''Bleu_3'', ''CIDEr'', ''Bleu_4''])"
    using low by (simp add: bleu_name_simps)
  show ?thesis
    using load_scorers_omission_cascade [OF v, THEN conjunct1, rule_format, of 3, OF h]
    by (simp add: bleu_names_upto)
qed

section \<open>The scoring loop, step by step\<close>

lemma store_vector_trace:
  "snd (store_vector printing zs ret t) =
     t @ (if printing then map (\<lambda>(sc, m). Print m sc) zs else [])"
  by (induction zs arbitrary: ret t) auto

lemma store_vector_report_indep:
  "fst (store_vector printing zs ret t) = fst (store_vector printing zs ret t')"
  by (induction zs arbitrary: ret t t') auto

lemma dom_store_vector:
  "dom (fst (store_vector printing zs ret t)) = dom ret \<union> snd ` set zs"
proof (induction zs arbitrary: ret t)
  case Nil
  show ?case by simp
next
  case (Cons z zs)
  obtain sc m where z: "z = (sc, m)" by (cases z)
  have "dom (fst (store_vector printing (z # zs) ret t)) =
      dom (fst (store_vector printing zs (ret(m \<mapsto> Scalar sc))
                 (if printing then t @ [Print m sc] else t)))"
    by (simp only: z store_vector.simps)
  also have "\<dots> = dom (ret(m \<mapsto> Scalar sc)) \<union> snd ` set zs"
    by (rule Cons.IH)
  also have "\<dots> = dom ret \<union> snd ` set (z # zs)"
    by (simp add: z)
  finally show ?case .
qed

lemma snd_set_zip: "snd ` set (zip xs ys) = set (take (length xs) ys)"
proof -
  have "snd ` set (zip xs ys) = set (map snd (zip xs ys))" by simp
  also have "\<dots> = set (take (min (length xs) (length ys)) ys)"
    by (simp only: map_snd_zip_take)
  also have "\<dots> = set (take (length xs) ys)"
    by (cases "length xs \<le> length ys") (simp_all add: min_def)
  finally show ?thesis .
qed

lemma store_trace:
  "\<exists>es. snd (store printing m sc ret t) = t @ es \<and> (\<forall>e\<in>set es. is_print e)"
  by (cases m; cases sc) (auto simp: store_def case_prod_beta store_vector_trace)

lemma store_report_indep:
  "fst (store printing m sc ret t) = fst (store printing m sc ret t')"
  using store_vector_report_indep [of printing _ ret t t']
  by (cases m; cases sc) (simp_all add: store_def case_prod_beta)

lemma store_trace_strong:
  "\<exists>es. snd (store printing m sc ret t) = t @ es \<and> (\<forall>e\<in>set es. printing \<and> is_print e)"
  by (cases m; cases sc) (auto simp: store_def case_prod_beta store_vector_trace)

lemma run_scorers_step:
  "run_scorers cs printing closing ((s, m) # rest) refs hyps ret t =
     (case cs t s refs hyps of
        Inl e \<Rightarrow> (Inl e, t @ [Compute s refs hyps])
      | Inr score \<Rightarrow>
          (case fst (store printing m score ret (t @ [Compute s refs hyps])) of
             Inl e \<Rightarrow> (Inl e, snd (store printing m score ret (t @ [Compute s refs hyps])))
           | Inr ret' \<Rightarrow>
               run_scorers cs printing closing rest refs hyps ret'
                 (if closing \<and> s = Meteor
                  then snd (store printing m score ret (t @ [Compute s refs hyps])) @ [Close s]
                  else snd (store printing m score ret (t @ [Compute s refs hyps])))))"
  by (simp split: sum.split prod.split)

lemma run_scorers_trace:
  "\<exists>es. snd (run_scorers cs printing closing ds refs hyps ret t) = t @ es \<and>
     (\<forall>e\<in>set es. (\<exists>s. s \<in> fst ` set ds \<and> e = Compute s refs hyps)
                  \<or> (closing \<and> e = Close Meteor) \<or> (printing \<and> is_print e))"
proof (induction ds arbitrary: ret t)
  case Nil
  show ?case by simp
next
  case (Cons d ds)
  obtain s m where d: "d = (s, m)" by (cases d)
  let ?c = "Compute s refs hyps :: 'a event"
  show ?case
  proof (cases "cs t s refs hyps")
    case (Inl e)
    then show ?thesis by (simp add: d)
  next
    case (Inr score)
    obtain es1 where es1: "snd (store printing m score ret (t @ [?c])) = (t @ [?c]) @ es1"
        and pr: "\<forall>e\<in>set es1. printing \<and> is_print e"
      using store_trace_strong by blast
    show ?thesis
    proof (cases "fst (store printing m score ret (t @ [?c]))")
      case (Inl e)
      with Inr es1 pr show ?thesis
        by (auto simp: d run_scorers_step simp del: run_scorers.simps)
    next
      case ret': (Inr ret')
      let ?t3 = "if closing \<and> s = Meteor
                 then snd (store printing m score ret (t @ [?c])) @ [Close s]
                 else snd (store printing m score ret (t @ [?c]))"
      obtain es2 where es2: "snd (run_scorers cs printing closing ds refs hyps ret' ?t3) = ?t3 @ es2"
        and ok: "\<forall>e\<in>set es2. (\<exists>s. s \<in> fst ` set ds \<and> e = Compute s refs hyps)
                  \<or> (closing \<and> e = Close Meteor) \<or> (printing \<and> is_print e)"
        using Cons.IH by blast
      have run: "run_scorers cs printing closing (d # ds) refs hyps ret t =
          run_scorers cs printing closing ds refs hyps ret' ?t3"
        by (simp only: d run_scorers_step Inr ret' sum.case)
      define clo :: "'a event list" where "clo = (if closing \<and> s = Meteor then [Close s] else [])"
      have t3: "?t3 = snd (store printing m score ret (t @ [?c])) @ clo"
        by (simp add: clo_def)
      let ?es = "?c # es1 @ clo @ es2"
      have "snd (run_scorers cs printing closing (d # ds) refs hyps ret t) = ?t3 @ es2"
        using es2 by (simp only: run)
      also have "\<dots> = (snd (store printing m score ret (t @ [?c])) @ clo) @ es2"
        by (simp only: t3)
      also have "\<dots> = (((t @ [?c]) @ es1) @ clo) @ es2"
        by (simp only: es1)
      finally have "snd (run_scorers cs printing closing (d # ds) refs hyps ret t) = t @ ?es"
        by simp
      moreover have "\<forall>e\<in>set ?es. (\<exists>s. s \<in> fst ` set (d # ds) \<and> e = Compute s refs hyps)
                  \<or> (closing \<and> e = Close Meteor) \<or> (printing \<and> is_print e)"
        using pr ok by (auto simp: d clo_def)
      ultimately show ?thesis by blast
    qed
  qed
qed

lemma run_scorers_report_indep:
  assumes "history_independent cs"
  shows "fst (run_scorers cs printing closing ds refs hyps ret t) =
         fst (run_scorers cs printing closing ds refs hyps ret t')"
proof (induction ds arbitrary: ret t t')
  case Nil
  show ?case by simp
next
  case (Cons d ds)
  obtain s m where d: "d = (s, m)" by (cases d)
  have same: "cs t s refs hyps = cs t' s refs hyps"
    using assms by (simp add: history_independent_def)
  show ?case
  proof (cases "cs t' s refs hyps")
    case (Inl e)
    with same show ?thesis by (simp add: d)
  next
    case (Inr score)
    let ?c = "Compute s refs hyps :: 'a event"
    have st: "fst (store printing m score ret (t @ [?c])) =
              fst (store printing m score ret (t' @ [?c]))"
      by (rule store_report_indep)
    show ?thesis
    proof (cases "fst (store printing m score ret (t' @ [?c]))")
      case (Inl e)
      with Inr same st show ?thesis
        by (simp add: d run_scorers_step del: run_scorers.simps)
    next
      case ret': (Inr ret')
      have l: "run_scorers cs printing closing (d # ds) refs hyps ret t =
          run_scorers cs printing closing ds refs hyps ret'
            (if closing \<and> s = Meteor
                 then snd (store printing m score ret (t @ [?c])) @ [Close s]
                 else snd (store printing m score ret (t @ [?c])))"
        using Inr same st ret' by (simp only: d run_scorers_step sum.case)
      have r: "run_scorers cs printing closing (d # ds) refs hyps ret t' =
          run_scorers cs printing closing ds refs hyps ret'
            (if closing \<and> s = Meteor
                 then snd (store printing m score ret (t' @ [?c])) @ [Close s]
                 else snd (store printing m score ret (t' @ [?c])))"
        using Inr ret' by (simp only: d run_scorers_step sum.case)
      show ?thesis
        unfolding l r by (rule Cons.IH)
    qed
  qed
qed

lemma honours_contract_Cons:
  "honours_contract cs ((s, m) # ds) \<Longrightarrow> honours_contract cs ds"
  by (simp add: honours_contract_def)

lemma honours_contract_head:
  assumes "honours_contract cs ((s, m) # ds)"
  shows "\<exists>score. cs t s refs hyps = Inr score \<and>
           (case score of Scalar v \<Rightarrow> (\<exists>n. m = Name n)
                        | Vector vs \<Rightarrow> (\<exists>ns. m = Names ns \<and> length vs = length ns))"
proof -
  have "case cs t s refs hyps of
          Inl e \<Rightarrow> False
        | Inr (Scalar v) \<Rightarrow> (\<exists>n. m = Name n)
        | Inr (Vector vs) \<Rightarrow> (\<exists>ns. m = Names ns \<and> length vs = length ns)"
    using assms unfolding honours_contract_def by fastforce
  then show ?thesis
    by (cases "cs t s refs hyps") auto
qed

lemma store_contract:
  assumes "case score of Scalar v \<Rightarrow> (\<exists>n. m = Name n)
                        | Vector vs \<Rightarrow> (\<exists>ns. m = Names ns \<and> length vs = length ns)"
  shows "\<exists>ret'. fst (store printing m score ret t) = Inr ret' \<and>
           dom ret' = dom ret \<union> set (names_of m)"
proof (cases score)
  case (Scalar v)
  with assms obtain n where "m = Name n" by auto
  with Scalar show ?thesis by (auto simp: store_def)
next
  case (Vector vs)
  with assms obtain ns where m: "m = Names ns" and len: "length vs = length ns" by auto
  have "fst (store printing (Names ns) (Vector vs) ret t) =
      Inr (fst (store_vector printing (zip vs ns) ret t))"
    by (simp add: store_def case_prod_beta)
  moreover have "dom (fst (store_vector printing (zip vs ns) ret t)) = dom ret \<union> set ns"
    by (simp only: dom_store_vector snd_set_zip len take_all order_refl)
  ultimately show ?thesis
    using m Vector by simp
qed

lemma declared_names_Cons:
  "declared_names ((s, m) # ds) = set (names_of m) \<union> declared_names ds"
  by (simp add: declared_names_def)

lemma run_scorers_complete:
  assumes "honours_contract cs ds"
  shows "\<exists>rep. fst (run_scorers cs printing closing ds refs hyps ret t) = Inr rep \<and>
           dom rep = dom ret \<union> declared_names ds"
  using assms
proof (induction ds arbitrary: ret t)
  case Nil
  show ?case by (simp add: declared_names_def)
next
  case (Cons d ds)
  obtain s m where d: "d = (s, m)" by (cases d)
  let ?c = "Compute s refs hyps :: 'a event"
  from Cons.prems obtain score where sc: "cs t s refs hyps = Inr score"
    and shape: "case score of Scalar v \<Rightarrow> (\<exists>n. m = Name n)
                        | Vector vs \<Rightarrow> (\<exists>ns. m = Names ns \<and> length vs = length ns)"
    unfolding d using honours_contract_head by blast
  obtain ret' where st: "fst (store printing m score ret (t @ [?c])) = Inr ret'"
    and dom': "dom ret' = dom ret \<union> set (names_of m)"
    using store_contract [OF shape] by blast
  let ?t3 = "if closing \<and> s = Meteor
             then snd (store printing m score ret (t @ [?c])) @ [Close s]
             else snd (store printing m score ret (t @ [?c]))"
  have run: "run_scorers cs printing closing (d # ds) refs hyps ret t =
      run_scorers cs printing closing ds refs hyps ret' ?t3"
    by (simp only: d run_scorers_step sc st sum.case)
  have "honours_contract cs ds"
    using Cons.prems unfolding d by (rule honours_contract_Cons)
  then obtain rep where r1: "fst (run_scorers cs printing closing ds refs hyps ret' ?t3) = Inr rep"
    and r2: "dom rep = dom ret' \<union> declared_names ds"
    using Cons.IH by blast
  have "fst (run_scorers cs printing closing (d # ds) refs hyps ret t) = Inr rep"
    using r1 by (simp only: run)
  moreover have "dom rep = dom ret \<union> declared_names (d # ds)"
    using r2 by (simp add: d declared_names_Cons dom' Un_assoc)
  ultimately show ?case by blast
qed

lemma expected_calls_Cons:
  "expected_calls closing ((s, m) # ds) refs hyps =
     Compute s refs hyps # (if closing \<and> s = Meteor then [Close s] else [])
       @ expected_calls closing ds refs hyps"
  by (simp add: expected_calls_def)

lemma run_scorers_success_calls:
  assumes "fst (run_scorers cs printing closing ds refs hyps ret t) = Inr rep"
  shows "\<exists>es. snd (run_scorers cs printing closing ds refs hyps ret t) = t @ es \<and>
           filter (\<lambda>e. \<not> is_print e) es = expected_calls closing ds refs hyps"
  using assms
proof (induction ds arbitrary: ret t)
  case Nil
  show ?case by (simp add: expected_calls_def)
next
  case (Cons d ds)
  obtain s m where d: "d = (s, m)" by (cases d)
  let ?c = "Compute s refs hyps :: 'a event"
  from Cons.prems obtain score where sc: "cs t s refs hyps = Inr score"
    by (cases "cs t s refs hyps") (simp_all add: d)
  from Cons.prems sc obtain ret' where st: "fst (store printing m score ret (t @ [?c])) = Inr ret'"
    by (cases "fst (store printing m score ret (t @ [?c]))")
       (simp_all add: d run_scorers_step del: run_scorers.simps)
  obtain es1 where es1: "snd (store printing m score ret (t @ [?c])) = (t @ [?c]) @ es1"
    and pr: "\<forall>e\<in>set es1. is_print e"
    using store_trace by blast
  define clo :: "'a event list" where "clo = (if closing \<and> s = Meteor then [Close s] else [])"
  let ?t3 = "if closing \<and> s = Meteor
             then snd (store printing m score ret (t @ [?c])) @ [Close s]
             else snd (store printing m score ret (t @ [?c]))"
  have t3: "?t3 = snd (store printing m score ret (t @ [?c])) @ clo"
    by (simp add: clo_def)
  have run: "run_scorers cs printing closing (d # ds) refs hyps ret t =
      run_scorers cs printing closing ds refs hyps ret' ?t3"
    by (simp only: d run_scorers_step sc st sum.case)
  have "fst (run_scorers cs printing closing ds refs hyps ret' ?t3) = Inr rep"
    using Cons.prems by (simp only: run)
  then obtain es2 where es2: "snd (run_scorers cs printing closing ds refs hyps ret' ?t3) = ?t3 @ es2"
    and calls: "filter (\<lambda>e. \<not> is_print e) es2 = expected_calls closing ds refs hyps"
    using Cons.IH by blast
  have "snd (run_scorers cs printing closing (d # ds) refs hyps ret t) = ?t3 @ es2"
    using es2 by (simp only: run)
  also have "\<dots> = (snd (store printing m score ret (t @ [?c])) @ clo) @ es2"
    by (simp only: t3)
  also have "\<dots> = (((t @ [?c]) @ es1) @ clo) @ es2"
    by (simp only: es1)
  finally have tr: "snd (run_scorers cs printing closing (d # ds) refs hyps ret t) =
      t @ (?c # es1 @ clo @ es2)"
    by simp
  have "filter (\<lambda>e. \<not> is_print e) es1 = []"
    using pr by (simp add: filter_empty_conv)
  then have "filter (\<lambda>e. \<not> is_print e) (?c # es1 @ clo @ es2) =
      expected_calls closing (d # ds) refs hyps"
    by (simp add: d expected_calls_Cons calls clo_def)
  with tr show ?case by blast
qed

section \<open>Trimming, splitting, transposing\<close>

lemma dropWhile_self: "xs = [] \<or> \<not> P (hd xs) \<Longrightarrow> dropWhile P xs = xs"
  by (cases xs) auto

lemma str_strip_fixed:
  assumes "s = [] \<or> (\<not> is_space (hd s) \<and> \<not> is_space (last s))"
  shows "str_strip s = s"
proof (cases "s = []")
  case True
  then show ?thesis by (simp add: str_strip_def)
next
  case False
  with assms have h: "\<not> is_space (hd s)" and l: "\<not> is_space (last s)" by simp_all
  have "dropWhile is_space s = s"
    using h by (intro dropWhile_self) simp
  moreover have "dropWhile is_space (rev s) = rev s"
    using l False by (intro dropWhile_self) (simp add: hd_rev)
  ultimately show ?thesis by (simp add: str_strip_def)
qed

lemma str_strip_decompose:
  "\<exists>l r. s = l @ str_strip s @ r \<and> (\<forall>c\<in>set l. is_space c) \<and> (\<forall>c\<in>set r. is_space c)"
proof -
  let ?m = "dropWhile is_space s"
  let ?l = "takeWhile is_space s"
  let ?r = "rev (takeWhile is_space (rev ?m))"
  have "rev (takeWhile is_space (rev ?m) @ dropWhile is_space (rev ?m)) = rev (rev ?m)"
    by (simp only: takeWhile_dropWhile_id)
  then have "rev (dropWhile is_space (rev ?m)) @ ?r = ?m"
    by (simp only: rev_append rev_rev_ident)
  then have m: "?m = str_strip s @ ?r"
    by (simp add: str_strip_def)
  have "s = ?l @ ?m" by simp
  with m have "s = ?l @ str_strip s @ ?r" by simp
  moreover have "\<forall>c\<in>set ?l. is_space c" by (auto dest: set_takeWhileD)
  moreover have "\<forall>c\<in>set ?r. is_space c" by (auto dest: set_takeWhileD)
  ultimately show ?thesis by blast
qed

lemma str_strip_ends:
  "str_strip s = [] \<or> (\<not> is_space (hd (str_strip s)) \<and> \<not> is_space (last (str_strip s)))"
proof (cases "str_strip s = []")
  case True
  then show ?thesis by simp
next
  case False
  let ?m = "dropWhile is_space s"
  let ?d = "dropWhile is_space (rev ?m)"
  have st: "str_strip s = rev ?d" by (simp add: str_strip_def)
  with False have d: "?d \<noteq> []" by simp
  have m: "?m \<noteq> []"
  proof
    assume e: "?m = []"
    have "?d = dropWhile is_space (rev [])" by (simp only: e)
    then have "?d = []" by simp
    with d show False ..
  qed
  have "\<not> is_space (hd ?d)" using d by (rule hd_dropWhile)
  then have last: "\<not> is_space (last (str_strip s))"
    using d by (simp add: st last_rev)
  have "last (takeWhile is_space (rev ?m) @ ?d) = last (rev ?m)"
    by (simp only: takeWhile_dropWhile_id)
  moreover have "last (takeWhile is_space (rev ?m) @ ?d) = last ?d"
    using d by (rule last_appendR)
  ultimately have "last (rev ?m) = last ?d" by (rule trans [OF sym])
  then have "hd ?m = last ?d" using m by (simp add: last_rev)
  moreover have "\<not> is_space (hd ?m)" using m by (rule hd_dropWhile)
  ultimately have "\<not> is_space (hd (str_strip s))"
    using d by (simp add: st hd_rev)
  with last show ?thesis by simp
qed

lemma str_strip_idem: "str_strip (str_strip s) = str_strip s"
  using str_strip_ends by (rule str_strip_fixed)

lemma split_acc_nonempty: "split_acc sep acc s \<noteq> []"
  by (induction sep acc s rule: split_acc.induct) auto

lemma str_join_Cons:
  "ps \<noteq> [] \<Longrightarrow> str_join sep (p # ps) = p @ sep @ str_join sep ps"
  by (cases ps) simp_all

lemma join_split_acc: "str_join sep (split_acc sep acc s) = acc @ s"
proof (induction sep acc s rule: split_acc.induct)
  case (1 sep acc)
  show ?case by simp
next
  case (2 sep acc c cs)
  show ?case
  proof (cases "sep \<noteq> [] \<and> prefix sep (c # cs)")
    case True
    then have "c # cs = sep @ drop (length sep) (c # cs)"
      by (metis append_eq_conv_conj prefixE)
    moreover have "str_join sep (split_acc sep acc (c # cs)) =
        acc @ sep @ drop (length sep) (c # cs)"
      using True 2(1) by (simp add: str_join_Cons split_acc_nonempty)
    ultimately show ?thesis by simp
  next
    case False
    with 2(2) show ?thesis by auto
  qed
qed

lemma join_split: "str_join sep (str_split s sep) = s"
  by (simp add: str_split_def join_split_acc)

lemma split_acc_pieces:
  assumes "sep \<noteq> []"
    and "\<forall>k<length acc. \<not> prefix sep (drop k (acc @ s))"
  shows "\<forall>p\<in>set (split_acc sep acc s). \<not> sublist sep p"
  using assms
proof (induction sep acc s rule: split_acc.induct)
  case (1 sep acc)
  have "\<not> sublist sep acc"
  proof
    assume "sublist sep acc"
    then obtain ps ss where acc: "acc = ps @ sep @ ss" by (auto simp: sublist_def)
    with 1(1) have "length ps < length acc" by (cases sep) auto
    with 1(2) have "\<not> prefix sep (drop (length ps) (acc @ []))" by blast
    with acc show False by simp
  qed
  then show ?case by simp
next
  case (2 sep acc c cs)
  show ?case
  proof (cases "prefix sep (c # cs)")
    case True
    have "\<not> sublist sep acc"
    proof
      assume "sublist sep acc"
      then obtain ps ss where acc: "acc = ps @ sep @ ss" by (auto simp: sublist_def)
      with 2(3) have "length ps < length acc" by (cases sep) auto
      with 2(4) have "\<not> prefix sep (drop (length ps) (acc @ c # cs))" by blast
      with acc show False by simp
    qed
    moreover have "\<forall>p\<in>set (split_acc sep [] (drop (length sep) (c # cs))). \<not> sublist sep p"
      using True 2(3) by (intro 2(1)) simp_all
    ultimately show ?thesis using True 2(3) by simp
  next
    case False
    have "\<forall>k<length (acc @ [c]). \<not> prefix sep (drop k ((acc @ [c]) @ cs))"
    proof (intro allI impI)
      fix k
      assume "k < length (acc @ [c])"
      then consider "k < length acc" | "k = length acc" by fastforce
      then show "\<not> prefix sep (drop k ((acc @ [c]) @ cs))"
      proof cases
        case 1
        with 2(4) show ?thesis by simp
      next
        case 2
        with False show ?thesis by simp
      qed
    qed
    then have "\<forall>p\<in>set (split_acc sep (acc @ [c]) cs). \<not> sublist sep p"
      using False 2(3) by (intro 2(2)) simp_all
    with False show ?thesis by simp
  qed
qed

lemma split_pieces: "sep \<noteq> [] \<Longrightarrow> \<forall>p\<in>set (str_split s sep). \<not> sublist sep p"
  unfolding str_split_def by (rule split_acc_pieces) simp_all

lemma zip_star_empty: "xss = [] \<or> [] \<in> set xss \<Longrightarrow> zip_star xss = []"
  by (subst zip_star.simps) simp

lemma zip_star_step:
  "xss \<noteq> [] \<Longrightarrow> [] \<notin> set xss \<Longrightarrow> zip_star xss = map hd xss # zip_star (map tl xss)"
  by (subst zip_star.simps) simp

lemma map_hd_nth: "[] \<notin> set xss \<Longrightarrow> map hd xss = map (\<lambda>xs. xs ! 0) xss"
  by (induction xss) (auto simp: hd_conv_nth)

lemma map_nth_tl:
  "[] \<notin> set xss \<Longrightarrow> map (\<lambda>xs. xs ! j) (map tl xss) = map (\<lambda>xs. xs ! Suc j) xss"
proof (induction xss)
  case Nil
  show ?case by simp
next
  case (Cons a xss)
  then obtain x xs where "a = x # xs" by (cases a) auto
  with Cons show ?case by simp
qed

lemma zip_star_length:
  "xss \<noteq> [] \<Longrightarrow> length (zip_star xss) = Min (set (map length xss))"
proof (induction xss rule: zip_star.induct)
  case (1 xss)
  show ?case
  proof (cases "[] \<in> set xss")
    case True
    then have "0 \<in> set (map length xss)" by force
    then have "Min (set (map length xss)) = 0"
      by (intro Min_eqI) auto
    with True show ?thesis by (simp add: zip_star_empty)
  next
    case False
    with 1(2) have ne: "\<not> (xss = [] \<or> [] \<in> set xss)" by simp
    have tl_ne: "map tl xss \<noteq> []" using 1(2) by simp
    have ih: "length (zip_star (map tl xss)) = Min (set (map length (map tl xss)))"
      using 1(1) [OF ne tl_ne] .
    have pos: "\<forall>n\<in>set (map length xss). 1 \<le> n"
      using False by (auto simp: Suc_le_eq)
    have "set (map length (map tl xss)) = (\<lambda>n. n - 1) ` set (map length xss)"
      by (simp add: image_image)
    then have "Min (set (map length (map tl xss))) = Min ((\<lambda>n. n - 1) ` set (map length xss))"
      by simp
    also have "\<dots> = Min (set (map length xss)) - 1"
      using 1(2) by (intro mono_Min_commute [symmetric]) (auto intro: monoI)
    finally have len: "length (zip_star (map tl xss)) = Min (set (map length xss)) - 1"
      using ih by simp
    have m1: "1 \<le> Min (set (map length xss))"
      using pos 1(2) by simp
    have "length (zip_star xss) = Suc (length (zip_star (map tl xss)))"
      using ne by (simp add: zip_star_step)
    also have "\<dots> = Suc (Min (set (map length xss)) - 1)"
      by (simp only: len)
    also have "\<dots> = Min (set (map length xss))"
      using m1 by arith
    finally show ?thesis .
  qed
qed

lemma zip_star_nth:
  "i < length (zip_star xss) \<Longrightarrow> zip_star xss ! i = map (\<lambda>xs. xs ! i) xss"
proof (induction xss arbitrary: i rule: zip_star.induct)
  case (1 xss)
  show ?case
  proof (cases "xss = [] \<or> [] \<in> set xss")
    case True
    with 1(2) show ?thesis by (simp add: zip_star_empty)
  next
    case False
    then have step: "zip_star xss = map hd xss # zip_star (map tl xss)"
      by (simp add: zip_star_step)
    show ?thesis
    proof (cases i)
      case 0
      have "map hd xss = map (\<lambda>xs. xs ! 0) xss"
        using False by (intro map_hd_nth) simp
      with 0 step show ?thesis by simp
    next
      case (Suc j)
      with 1(2) step have "j < length (zip_star (map tl xss))" by simp
      then have "zip_star (map tl xss) ! j = map (\<lambda>xs. xs ! j) (map tl xss)"
        using 1(1) [OF False] by blast
      moreover have "map (\<lambda>xs. xs ! j) (map tl xss) = map (\<lambda>xs. xs ! Suc j) xss"
        using False by (intro map_nth_tl) simp
      ultimately show ?thesis using Suc step by simp
    qed
  qed
qed

lemma Min_image_min:
  "finite A \<Longrightarrow> A \<noteq> {} \<Longrightarrow> Min ((\<lambda>k::nat. min k n) ` A) = min (Min A) n"
proof (rule mono_Min_commute [symmetric])
  show "mono (\<lambda>k::nat. min k n)"
    by (rule monoI) (rule min.mono, simp_all)
qed

lemma zip_star_take:
  assumes "xss \<noteq> []"
  shows "zip_star (map (take (Min (set (map length xss)))) xss) = zip_star xss"
proof (rule nth_equalityI)
  let ?n = "Min (set (map length xss))"
  have "set (map length (map (take ?n) xss)) = (\<lambda>k. min k ?n) ` set (map length xss)"
    by (simp add: image_image)
  then have "Min (set (map length (map (take ?n) xss))) =
      Min ((\<lambda>k. min k ?n) ` set (map length xss))"
    by simp
  also have "\<dots> = min (Min (set (map length xss))) ?n"
    using assms by (intro Min_image_min) simp_all
  finally have mn: "Min (set (map length (map (take ?n) xss))) = ?n"
    by simp
  have "map (take ?n) xss \<noteq> []"
    using assms by simp
  then have "length (zip_star (map (take ?n) xss)) =
      Min (set (map length (map (take ?n) xss)))"
    by (rule zip_star_length)
  then have len: "length (zip_star (map (take ?n) xss)) = ?n"
    by (simp only: mn)
  show "length (zip_star (map (take ?n) xss)) = length (zip_star xss)"
    by (simp only: len zip_star_length [OF assms])
  fix i
  assume "i < length (zip_star (map (take ?n) xss))"
  then have i: "i < ?n" by (simp only: len)
  then have "zip_star (map (take ?n) xss) ! i = map (\<lambda>xs. xs ! i) (map (take ?n) xss)"
    by (intro zip_star_nth) (simp only: len)
  also have "\<dots> = map (\<lambda>xs. xs ! i) xss"
    using i by (simp add: comp_def)
  also have "\<dots> = zip_star xss ! i"
    using i by (intro zip_star_nth [symmetric]) (simp only: zip_star_length [OF assms])
  finally show "zip_star (map (take ?n) xss) ! i = zip_star xss ! i" .
qed

section \<open>Properties of the evaluation calls\<close>

lemma new_events_append: "new_events t (t @ es) = es"
  by (simp add: new_events_def)

text \<open>
  C4. Unrecognized omission rejected. An omission set with at least one name outside the
  catalog makes the constructor fail on its assertion: the result is the error, no
  evaluator exists, and the constructor has no scorer to call.
\<close>
theorem unknown_name_rejected:
  "x \<in> set xs \<Longrightarrow> x \<notin> valid_metrics \<Longrightarrow> NLGEval_init (Some xs) = Inl AssertionError"
  by (rule init_invalid) blast

text \<open>An omission set with the misspelt name \<^verbatim>\<open>BLEU\<close> is rejected.\<close>

theorem unknown_name_rejected_witness:
  "''BLEU'' \<in> set [''Bleu_1'', ''BLEU''] \<and> ''BLEU'' \<notin> valid_metrics \<and>
   NLGEval_init (Some [''Bleu_1'', ''BLEU'']) = Inl AssertionError"
  using unknown_name_rejected [of "''BLEU''" "[''Bleu_1'', ''BLEU'']"]
  by (simp add: valid_metrics_def)

text \<open>
  C5. Alignment size invariant. When the number of hypotheses differs from the number of
  aligned reference sets (the tuples the transposition yields), batch evaluation fails
  on the size assertion and the history is untouched: no \<^verbatim>\<open>compute_score\<close> was called and
  no report is returned. This holds for the method of \<^verbatim>\<open>NLGEval\<close> and, once the files are
  read, for the legacy function.
\<close>
theorem size_mismatch_fails:
  "(length hyp_list \<noteq> length (zip_star ref_list) \<longrightarrow>
      NLGEval_compute_metrics cs self ref_list hyp_list t = (Inl AssertionError, t))
   \<and> (readlines fs hypothesis = Inr hyp_list \<and> read_references fs references [] = Inr ref_list
        \<and> length hyp_list \<noteq> length (zip_star ref_list) \<longrightarrow>
      compute_metrics cs fs hypothesis references t = (Inl AssertionError, t))"
  by (auto simp: NLGEval_compute_metrics_def compute_metrics_def Let_def)

text \<open>Three hypotheses against two aligned reference sets: both entry points fail on the assertion.\<close>

theorem size_mismatch_fails_witness:
  "length [''one'', ''two'', ''three''] \<noteq> length (zip_star [[''a'', ''b''], [''c'', ''d'']]) \<and>
   NLGEval_compute_metrics (\<lambda>t s refs hyps. Inr (Scalar (0::nat)))
     \<lparr>metrics_to_omit = {}, scorers = legacy_scorers\<rparr>
     [[''a'', ''b''], [''c'', ''d'']] [''one'', ''two'', ''three''] [] = (Inl AssertionError, []) \<and>
   readlines [''hyp.txt'' \<mapsto> [''one'', ''two'', ''three''], ''ref.txt'' \<mapsto> [''a'', ''b'']] ''hyp.txt''
     = Inr [''one'', ''two'', ''three''] \<and>
   read_references [''hyp.txt'' \<mapsto> [''one'', ''two'', ''three''], ''ref.txt'' \<mapsto> [''a'', ''b'']]
     [''ref.txt'', ''ref.txt''] [] = Inr [[''a'', ''b''], [''a'', ''b'']] \<and>
   compute_metrics (\<lambda>t s refs hyps. Inr (Scalar (0::nat)))
     [''hyp.txt'' \<mapsto> [''one'', ''two'', ''three''], ''ref.txt'' \<mapsto> [''a'', ''b'']]
     ''hyp.txt'' [''ref.txt'', ''ref.txt''] [] = (Inl AssertionError, [])"
proof -
  have z1: "zip_star [[''a'', ''b''], [''c'', ''d'']] = [[''a'', ''c''], [''b'', ''d'']]"
    by (simp add: zip_star.simps)
  have z2: "zip_star [[''a'', ''b''], [''a'', ''b'']] = [[''a'', ''a''], [''b'', ''b'']]"
    by (simp add: zip_star.simps)
  have r1: "readlines [''hyp.txt'' \<mapsto> [''one'', ''two'', ''three''], ''ref.txt'' \<mapsto> [''a'', ''b'']] ''hyp.txt''
     = Inr [''one'', ''two'', ''three'']"
    by (simp add: readlines_def)
  have r2: "read_references [''hyp.txt'' \<mapsto> [''one'', ''two'', ''three''], ''ref.txt'' \<mapsto> [''a'', ''b'']]
     [''ref.txt'', ''ref.txt''] [] = Inr [[''a'', ''b''], [''a'', ''b'']]"
    by (simp add: readlines_def)
  have l1: "length [''one'', ''two'', ''three''] \<noteq> length (zip_star [[''a'', ''b''], [''c'', ''d'']])"
    by (simp add: z1)
  have l2: "length [''one'', ''two'', ''three''] \<noteq> length (zip_star [[''a'', ''b''], [''a'', ''b'']])"
    by (simp add: z2)
  note c1 = size_mismatch_fails [THEN conjunct1, THEN mp, OF l1]
  note c2 = size_mismatch_fails [THEN conjunct2, THEN mp, OF conjI [OF r1 conjI [OF r2 l2]]]
  show ?thesis
    by (intro conjI l1 r1 r2 c1 c2)
qed

text \<open>
  C7. Empty Active Metric List. Omitting every catalog name constructs an evaluator
  whose list is empty, and single-pair evaluation on an evaluator with an empty list
  returns the empty report for every hypothesis string, without an error and without
  any call.
\<close>
theorem empty_list_empty_report:
  "(set xs = valid_metrics \<longrightarrow>
      (\<exists>self. NLGEval_init (Some xs) = Inr self \<and> scorers self = []))
   \<and> (scorers self = [] \<longrightarrow>
      NLGEval_compute_individual_metrics cs self ref (Str hyp) t = (Inr Map.empty, t))"
proof (intro conjI impI)
  assume v: "set xs = valid_metrics"
  then have "set xs \<subseteq> valid_metrics" by simp
  then have "NLGEval_init (Some xs) = Inr (load_scorers \<lparr>metrics_to_omit = set xs, scorers = []\<rparr>)"
    by (rule init_valid)
  moreover have "scorers (load_scorers \<lparr>metrics_to_omit = set xs, scorers = []\<rparr>) = []"
    by (simp add: load_scorers_eq bleu_loop_range v valid_metrics_def)
  ultimately show "\<exists>self. NLGEval_init (Some xs) = Inr self \<and> scorers self = []"
    by blast
next
  assume "scorers self = []"
  then show "NLGEval_compute_individual_metrics cs self ref (Str hyp) t = (Inr Map.empty, t)"
    by (simp add: NLGEval_compute_individual_metrics_def)
qed

text \<open>The whole catalog omitted: an empty list, an empty report, and the scorer is never asked.\<close>

theorem empty_list_empty_report_witness:
  "set [''Bleu_1'', ''Bleu_2'', ''Bleu_3'', ''Bleu_4'', ''METEOR'', ''ROUGE_L'', ''CIDEr'', ''SPICE'']
     = valid_metrics \<and>
   NLGEval_init
     (Some [''Bleu_1'', ''Bleu_2'', ''Bleu_3'', ''Bleu_4'', ''METEOR'', ''ROUGE_L'', ''CIDEr'', ''SPICE''])
     = Inr \<lparr>metrics_to_omit = valid_metrics, scorers = []\<rparr> \<and>
   NLGEval_compute_individual_metrics (\<lambda>t s refs hyps. Inl (MetricError ''never called''))
     \<lparr>metrics_to_omit = valid_metrics, scorers = []\<rparr>
     (Seq [''a cat sat'']) (Str ''the cat sat'') ([] :: nat event list) = (Inr Map.empty, [])"
proof -
  let ?xs = "[''Bleu_1'', ''Bleu_2'', ''Bleu_3'', ''Bleu_4'', ''METEOR'', ''ROUGE_L'', ''CIDEr'', ''SPICE'']"
  have v: "set ?xs = valid_metrics"
    by (simp add: valid_metrics_def)
  then have "set ?xs \<subseteq> valid_metrics" by (simp only: order_refl)
  then have i: "NLGEval_init (Some ?xs) = Inr \<lparr>metrics_to_omit = valid_metrics, scorers = []\<rparr>"
    by (simp add: init_valid load_scorers_eq bleu_loop_range valid_metrics_def)
  have e: "scorers \<lparr>metrics_to_omit = valid_metrics, scorers = []\<rparr> = []" by simp
  show ?thesis
    by (intro conjI v i empty_list_empty_report [THEN conjunct2, THEN mp, OF e])
qed

text \<open>
  C8. Same configuration, same input, same result. When the external scorers answer as
  functions of their arguments alone, a second single-pair call on the same evaluator,
  made after the first one, returns what the first one returned.
\<close>
theorem repeated_call_same_report:
  assumes "history_independent cs"
  shows "fst (NLGEval_compute_individual_metrics cs self ref hyp
                (snd (NLGEval_compute_individual_metrics cs self ref hyp t))) =
         fst (NLGEval_compute_individual_metrics cs self ref hyp t)"
proof (cases hyp)
  case (Str h)
  then show ?thesis
    unfolding NLGEval_compute_individual_metrics_def Let_def
    by (simp add: run_scorers_report_indep [OF assms])
next
  case (Seq hs)
  then show ?thesis
    by (simp add: NLGEval_compute_individual_metrics_def)
qed

text \<open>Two tiers of Bleu and ROUGE_L, called twice with constant scorers.\<close>

theorem repeated_call_same_report_witness:
  "history_independent
     (\<lambda>t s refs hyps. if s = Rouge then Inr (Scalar 2) else Inr (Vector [1, 1 :: nat])) \<and>
   fst (NLGEval_compute_individual_metrics
          (\<lambda>t s refs hyps. if s = Rouge then Inr (Scalar 2) else Inr (Vector [1, 1 :: nat]))
          \<lparr>metrics_to_omit = {''Bleu_3'', ''METEOR'', ''CIDEr'', ''SPICE''},
           scorers = [(Bleu 2, Names [''Bleu_1'', ''Bleu_2'']), (Rouge, Name ''ROUGE_L'')]\<rparr>
          (Seq [''the cat sat on the mat'', ''a cat sat'']) (Str ''the cat sat'')
          (snd (NLGEval_compute_individual_metrics
             (\<lambda>t s refs hyps. if s = Rouge then Inr (Scalar 2) else Inr (Vector [1, 1 :: nat]))
             \<lparr>metrics_to_omit = {''Bleu_3'', ''METEOR'', ''CIDEr'', ''SPICE''},
              scorers = [(Bleu 2, Names [''Bleu_1'', ''Bleu_2'']), (Rouge, Name ''ROUGE_L'')]\<rparr>
             (Seq [''the cat sat on the mat'', ''a cat sat'']) (Str ''the cat sat'') [])))
     = Inr [''Bleu_1'' \<mapsto> Scalar 1, ''Bleu_2'' \<mapsto> Scalar 1, ''ROUGE_L'' \<mapsto> Scalar 2]"
proof -
  let ?cs = "\<lambda>(t :: nat event list) s (refs :: string list dict) (hyps :: string list dict).
     if s = Rouge then Inr (Scalar 2) else Inr (Vector [1, 1 :: nat])"
  have h: "history_independent ?cs"
    by (simp add: history_independent_def)
  have first: "fst (NLGEval_compute_individual_metrics ?cs
          \<lparr>metrics_to_omit = {''Bleu_3'', ''METEOR'', ''CIDEr'', ''SPICE''},
           scorers = [(Bleu 2, Names [''Bleu_1'', ''Bleu_2'']), (Rouge, Name ''ROUGE_L'')]\<rparr>
          (Seq [''the cat sat on the mat'', ''a cat sat'']) (Str ''the cat sat'') [])
     = Inr [''Bleu_1'' \<mapsto> Scalar 1, ''Bleu_2'' \<mapsto> Scalar 1, ''ROUGE_L'' \<mapsto> Scalar 2]"
    by (simp add: NLGEval_compute_individual_metrics_def store_def Let_def)
  show ?thesis
    using h first by (simp only: repeated_call_same_report [OF h] simp_thms)
qed

text \<open>
  C3. Report completeness. For a constructed evaluator with a non-empty list, scorers
  that return one score per declared name, and a hypothesis string, single-pair
  evaluation returns a report whose key set is exactly the union of the names the
  descriptors declare.
\<close>
theorem report_completeness:
  assumes "NLGEval_init omit = Inr self"
    and "scorers self \<noteq> []"
    and "honours_contract cs (scorers self)"
  shows "\<exists>rep. fst (NLGEval_compute_individual_metrics cs self ref (Str hyp) t) = Inr rep \<and>
           dom rep = declared_names (scorers self)"
  using run_scorers_complete [OF assms(3), where ret = Map.empty]
  by (simp add: NLGEval_compute_individual_metrics_def)

text \<open>Two tiers of Bleu and one scalar metric: exactly three keys.\<close>

theorem report_completeness_witness:
  "\<exists>rep. fst (NLGEval_compute_individual_metrics
           (\<lambda>t s refs hyps. if s = Rouge then Inr (Scalar 2) else Inr (Vector [1, 1 :: nat]))
           \<lparr>metrics_to_omit = set [''Bleu_3'', ''METEOR'', ''CIDEr'', ''SPICE''],
            scorers = [(Bleu 2, Names [''Bleu_1'', ''Bleu_2'']), (Rouge, Name ''ROUGE_L'')]\<rparr>
           (Seq [''the cat sat on the mat'', ''a cat sat'']) (Str ''the cat sat'') []) = Inr rep \<and>
         dom rep = {''Bleu_1'', ''Bleu_2'', ''ROUGE_L''}"
proof -
  let ?cs = "\<lambda>(t :: nat event list) s (refs :: string list dict) (hyps :: string list dict).
     if s = Rouge then Inr (Scalar 2) else Inr (Vector [1, 1 :: nat])"
  let ?xs = "[''Bleu_3'', ''METEOR'', ''CIDEr'', ''SPICE'']"
  let ?self = "\<lparr>metrics_to_omit = set ?xs,
            scorers = [(Bleu 2, Names [''Bleu_1'', ''Bleu_2'']), (Rouge, Name ''ROUGE_L'')]\<rparr>"
  have "set ?xs \<subseteq> valid_metrics"
    by (simp add: valid_metrics_def)
  then have i: "NLGEval_init (Some ?xs) = Inr ?self"
    by (simp add: init_valid load_scorers_eq bleu_loop_range)
  have ne: "scorers ?self \<noteq> []" by simp
  have c: "honours_contract ?cs (scorers ?self)"
    by (simp add: honours_contract_def)
  have d: "declared_names (scorers ?self) = {''Bleu_1'', ''Bleu_2'', ''ROUGE_L''}"
    by (auto simp: declared_names_def)
  show ?thesis
    using report_completeness [OF i ne c] by (simp only: d)
qed

lemma run_scorers_quiet_events:
  "\<forall>e\<in>set (new_events t (snd (run_scorers cs False False ds refs hyps ret t))).
     \<exists>s. e = Compute s refs hyps"
proof -
  obtain es where "snd (run_scorers cs False False ds refs hyps ret t) = t @ es"
    and "\<forall>e\<in>set es. (\<exists>s. s \<in> fst ` set ds \<and> e = Compute s refs hyps)
                  \<or> (False \<and> e = Close Meteor) \<or> (False \<and> is_print e)"
    using run_scorers_trace [of cs False False ds refs hyps ret t] by blast
  then show ?thesis
    by (auto simp: new_events_append)
qed

lemma run_scorers_legacy_events:
  "\<forall>e\<in>set (new_events t (snd (run_scorers cs False True ds refs hyps ret t))).
     e = Close Meteor \<or> (\<exists>s. e = Compute s refs hyps)"
proof -
  obtain es where "snd (run_scorers cs False True ds refs hyps ret t) = t @ es"
    and "\<forall>e\<in>set es. (\<exists>s. s \<in> fst ` set ds \<and> e = Compute s refs hyps)
                  \<or> (True \<and> e = Close Meteor) \<or> (False \<and> is_print e)"
    using run_scorers_trace [of cs False True ds refs hyps ret t] by blast
  then show ?thesis
    by (auto simp: new_events_append)
qed

lemma run_scorers_quiet_success:
  assumes "fst (run_scorers cs False closing ds refs hyps ret t) = Inr rep"
  shows "new_events t (snd (run_scorers cs False closing ds refs hyps ret t)) =
           expected_calls closing ds refs hyps"
proof -
  obtain es where es: "snd (run_scorers cs False closing ds refs hyps ret t) = t @ es"
    and calls: "filter (\<lambda>e. \<not> is_print e) es = expected_calls closing ds refs hyps"
    using run_scorers_success_calls [OF assms] by blast
  obtain es' where es': "snd (run_scorers cs False closing ds refs hyps ret t) = t @ es'"
    and np: "\<forall>e\<in>set es'. (\<exists>s. s \<in> fst ` set ds \<and> e = Compute s refs hyps)
                  \<or> (closing \<and> e = Close Meteor) \<or> (False \<and> is_print e)"
    using run_scorers_trace [of cs False closing ds refs hyps ret t] by blast
  from es es' have "es' = es" by simp
  with np have "\<forall>e\<in>set es. \<not> is_print e" by auto
  then have "filter (\<lambda>e. \<not> is_print e) es = es" by simp
  with calls es show ?thesis by (simp add: new_events_append)
qed

lemma expected_calls_quiet:
  "expected_calls False ds refs hyps = map (\<lambda>(s, m). Compute s refs hyps) ds"
  by (induction ds) (auto simp: expected_calls_def)

lemma run_scorers_first_event:
  "\<exists>es. snd (run_scorers cs printing closing ((s, m) # ds) refs hyps ret t) =
     t @ Compute s refs hyps # es"
proof (cases "cs t s refs hyps")
  case (Inl e)
  then show ?thesis by simp
next
  case (Inr score)
  let ?c = "Compute s refs hyps :: 'a event"
  obtain es1 where es1: "snd (store printing m score ret (t @ [?c])) = (t @ [?c]) @ es1"
    using store_trace by blast
  show ?thesis
  proof (cases "fst (store printing m score ret (t @ [?c]))")
    case (Inl e)
    with Inr es1 show ?thesis
      by (simp add: run_scorers_step del: run_scorers.simps)
  next
    case ret': (Inr ret')
    let ?t3 = "if closing \<and> s = Meteor
                 then snd (store printing m score ret (t @ [?c])) @ [Close s]
                 else snd (store printing m score ret (t @ [?c]))"
    obtain es2 where es2: "snd (run_scorers cs printing closing ds refs hyps ret' ?t3) = ?t3 @ es2"
      using run_scorers_trace by blast
    have run: "run_scorers cs printing closing ((s, m) # ds) refs hyps ret t =
          run_scorers cs printing closing ds refs hyps ret' ?t3"
      by (simp only: run_scorers_step Inr ret' sum.case)
    define clo :: "'a event list" where "clo = (if closing \<and> s = Meteor then [Close s] else [])"
    have t3: "?t3 = snd (store printing m score ret (t @ [?c])) @ clo"
      by (simp add: clo_def)
    have "snd (run_scorers cs printing closing ((s, m) # ds) refs hyps ret t) = ?t3 @ es2"
      using es2 by (simp only: run)
    also have "\<dots> = (snd (store printing m score ret (t @ [?c])) @ clo) @ es2"
      by (simp only: t3)
    also have "\<dots> = (((t @ [?c]) @ es1) @ clo) @ es2"
      by (simp only: es1)
    finally show ?thesis by simp
  qed
qed

lemma legacy_expected_calls:
  "expected_calls True legacy_scorers refs hyps =
     [Compute (Bleu 4) refs hyps, Compute Meteor refs hyps, Close Meteor,
      Compute Rouge refs hyps, Compute Cider refs hyps, Compute Spice refs hyps]"
  by (simp add: expected_calls_def legacy_scorers_def)

lemma run_scorers_printing_events:
  "\<forall>e\<in>set (new_events t (snd (run_scorers cs True True ds refs hyps ret t))).
     is_print e \<or> e = Close Meteor \<or> (\<exists>s. e = Compute s refs hyps)"
proof -
  obtain es where "snd (run_scorers cs True True ds refs hyps ret t) = t @ es"
    and "\<forall>e\<in>set es. (\<exists>s. s \<in> fst ` set ds \<and> e = Compute s refs hyps)
                  \<or> (True \<and> e = Close Meteor) \<or> (True \<and> is_print e)"
    using run_scorers_trace [of cs True True ds refs hyps ret t] by blast
  then show ?thesis
    by (auto simp: new_events_append)
qed

lemma run_scorers_first_new_event:
  "\<exists>es. new_events t (snd (run_scorers cs printing closing ((s, m) # ds) refs hyps ret t)) =
     Compute s refs hyps # es"
proof -
  obtain es where "snd (run_scorers cs printing closing ((s, m) # ds) refs hyps ret t) =
     t @ Compute s refs hyps # es"
    using run_scorers_first_event by blast
  then have "new_events t (snd (run_scorers cs printing closing ((s, m) # ds) refs hyps ret t)) =
     Compute s refs hyps # es"
    by (simp only: new_events_append)
  then show ?thesis by blast
qed

lemma run_scorers_printing_success:
  assumes "fst (run_scorers cs True closing ds refs hyps ret t) = Inr rep"
  shows "filter (\<lambda>e. \<not> is_print e)
           (new_events t (snd (run_scorers cs True closing ds refs hyps ret t))) =
         expected_calls closing ds refs hyps"
proof -
  obtain es where es: "snd (run_scorers cs True closing ds refs hyps ret t) = t @ es"
    and calls: "filter (\<lambda>e. \<not> is_print e) es = expected_calls closing ds refs hyps"
    using run_scorers_success_calls [OF assms] by blast
  show ?thesis
    by (simp only: es new_events_append calls)
qed

text \<open>
  C6. Trimming. Every scorer called by an evaluation call receives the strings trimmed.
  Single-pair evaluation, in the method of \<^verbatim>\<open>NLGEval\<close> and in the legacy function, passes the
  reference sequence with each member trimmed and the hypothesis trimmed; batch
  evaluation, in the method and (once the files are read) in the legacy function, passes
  the transposed references and the hypotheses, each string trimmed. In all four the
  first scorer of the list is called with exactly these, whatever it answers; every later
  call carries them too; and when the call returns a report, every scorer of the list
  was called once with them. Trimming removes a run of whitespace on the left and one on
  the right and leaves a string that neither starts nor ends with whitespace; trimming a
  trimmed string changes nothing.
\<close>
theorem aligned_strings_are_trimmed:
  "(\<forall>e\<in>set (new_events t (snd (NLGEval_compute_individual_metrics cs self (Seq refs) (Str hyp) t))).
      \<exists>sc. e = Compute sc [(0, map str_strip refs)] [(0, [str_strip hyp])])
   \<and> (fst (NLGEval_compute_individual_metrics cs self (Seq refs) (Str hyp) t) = Inr rep \<longrightarrow>
        new_events t (snd (NLGEval_compute_individual_metrics cs self (Seq refs) (Str hyp) t)) =
          map (\<lambda>(sc, m). Compute sc [(0, map str_strip refs)] [(0, [str_strip hyp])]) (scorers self))
   \<and> (\<forall>e\<in>set (new_events t (snd (NLGEval_compute_metrics cs self ref_list hyp_list t))).
      \<exists>sc. e = Compute sc (enumerate 0 (map (map strip) (zip_star ref_list)))
                           (enumerate 0 (map (\<lambda>h. [str_strip h]) hyp_list)))
   \<and> strip s = str_strip s
   \<and> (\<exists>l r. s = l @ str_strip s @ r \<and> (\<forall>c\<in>set l. is_space c) \<and> (\<forall>c\<in>set r. is_space c))
   \<and> (str_strip s = [] \<or> (\<not> is_space (hd (str_strip s)) \<and> \<not> is_space (last (str_strip s))))
   \<and> str_strip (str_strip s) = str_strip s
   \<and> (fst (NLGEval_compute_metrics cs self ref_list hyp_list t) = Inr rep \<longrightarrow>
        new_events t (snd (NLGEval_compute_metrics cs self ref_list hyp_list t)) =
          map (\<lambda>(sc, m). Compute sc (enumerate 0 (map (map strip) (zip_star ref_list)))
                                   (enumerate 0 (map (\<lambda>h. [str_strip h]) hyp_list)))
            (scorers self))
   \<and> (scorers self = (sc0, m0) # rest \<longrightarrow>
        (\<exists>es. new_events t (snd (NLGEval_compute_individual_metrics cs self (Seq refs) (Str hyp) t)) =
           Compute sc0 [(0, map str_strip refs)] [(0, [str_strip hyp])] # es))
   \<and> (scorers self = (sc0, m0) # rest \<and> length (zip_star ref_list) = length hyp_list \<longrightarrow>
        (\<exists>es. new_events t (snd (NLGEval_compute_metrics cs self ref_list hyp_list t)) =
           Compute sc0 (enumerate 0 (map (map strip) (zip_star ref_list)))
                       (enumerate 0 (map (\<lambda>h. [str_strip h]) hyp_list)) # es))
   \<and> (\<exists>es. new_events t (snd (compute_individual_metrics cs (Seq refs) (Str hyp) t)) =
         Compute (Bleu 4) [(0, map str_strip refs)] [(0, [str_strip hyp])] # es)
   \<and> (\<forall>e\<in>set (new_events t (snd (compute_individual_metrics cs (Seq refs) (Str hyp) t))).
        e = Close Meteor \<or>
        (\<exists>sc. e = Compute sc [(0, map str_strip refs)] [(0, [str_strip hyp])]))
   \<and> (fst (compute_individual_metrics cs (Seq refs) (Str hyp) t) = Inr rep \<longrightarrow>
        new_events t (snd (compute_individual_metrics cs (Seq refs) (Str hyp) t)) =
          (let R = [(0, map str_strip refs)]; H = [(0, [str_strip hyp])]
           in [Compute (Bleu 4) R H, Compute Meteor R H, Close Meteor,
               Compute Rouge R H, Compute Cider R H, Compute Spice R H]))
   \<and> (readlines fs hypothesis = Inr hyp_list \<and> read_references fs references [] = Inr ref_list
        \<and> length (zip_star ref_list) = length hyp_list \<longrightarrow>
        (\<exists>es. new_events t (snd (compute_metrics cs fs hypothesis references t)) =
           Compute (Bleu 4) (enumerate 0 (map (map strip) (zip_star ref_list)))
                            (enumerate 0 (map (\<lambda>h. [str_strip h]) hyp_list)) # es)
        \<and> (\<forall>e\<in>set (new_events t (snd (compute_metrics cs fs hypothesis references t))).
             is_print e \<or> e = Close Meteor \<or>
             (\<exists>sc. e = Compute sc (enumerate 0 (map (map strip) (zip_star ref_list)))
                                  (enumerate 0 (map (\<lambda>h. [str_strip h]) hyp_list))))
        \<and> (fst (compute_metrics cs fs hypothesis references t) = Inr rep \<longrightarrow>
             filter (\<lambda>e. \<not> is_print e)
               (new_events t (snd (compute_metrics cs fs hypothesis references t))) =
             (let R = enumerate 0 (map (map strip) (zip_star ref_list));
                  H = enumerate 0 (map (\<lambda>h. [str_strip h]) hyp_list)
              in [Compute (Bleu 4) R H, Compute Meteor R H, Close Meteor,
                  Compute Rouge R H, Compute Cider R H, Compute Spice R H])))"
proof -
  let ?R = "[(0, map str_strip refs)] :: string list dict"
  let ?H = "[(0, [str_strip hyp])] :: string list dict"
  let ?BR = "enumerate 0 (map (map strip) (zip_star ref_list))"
  let ?BH = "enumerate 0 (map (\<lambda>h. [str_strip h]) hyp_list)"
  have single: "NLGEval_compute_individual_metrics cs self (Seq refs) (Str hyp) t =
      run_scorers cs False False (scorers self) ?R ?H Map.empty t"
    by (simp add: NLGEval_compute_individual_metrics_def)
  have batch: "NLGEval_compute_metrics cs self ref_list hyp_list t =
      run_scorers cs False False (scorers self) ?BR ?BH Map.empty t"
    if "length (zip_star ref_list) = length hyp_list"
    using that by (simp add: NLGEval_compute_metrics_def)
  have batch_fail: "NLGEval_compute_metrics cs self ref_list hyp_list t = (Inl AssertionError, t)"
    if "length (zip_star ref_list) \<noteq> length hyp_list"
    using that by (simp add: NLGEval_compute_metrics_def)
  have lsingle: "compute_individual_metrics cs (Seq refs) (Str hyp) t =
      run_scorers cs False True legacy_scorers ?R ?H Map.empty t"
    by (simp add: compute_individual_metrics_def)
  have lbatch: "compute_metrics cs fs hypothesis references t =
      run_scorers cs True True legacy_scorers ?BR ?BH Map.empty t"
    if "readlines fs hypothesis = Inr hyp_list \<and> read_references fs references [] = Inr ref_list
        \<and> length (zip_star ref_list) = length hyp_list"
    using that by (simp add: compute_metrics_def)
  have c1: "\<forall>e\<in>set (new_events t (snd (NLGEval_compute_individual_metrics cs self (Seq refs) (Str hyp) t))).
      \<exists>sc. e = Compute sc ?R ?H"
    unfolding single by (rule run_scorers_quiet_events)
  have c2: "fst (NLGEval_compute_individual_metrics cs self (Seq refs) (Str hyp) t) = Inr rep \<longrightarrow>
        new_events t (snd (NLGEval_compute_individual_metrics cs self (Seq refs) (Str hyp) t)) =
          map (\<lambda>(sc, m). Compute sc ?R ?H) (scorers self)"
    unfolding single expected_calls_quiet [symmetric]
    by (rule impI) (rule run_scorers_quiet_success)
  have c3: "\<forall>e\<in>set (new_events t (snd (NLGEval_compute_metrics cs self ref_list hyp_list t))).
      \<exists>sc. e = Compute sc ?BR ?BH"
  proof (cases "length (zip_star ref_list) = length hyp_list")
    case True
    show ?thesis
      unfolding batch [OF True] by (rule run_scorers_quiet_events)
  next
    case False
    show ?thesis
      unfolding batch_fail [OF False] by (simp add: new_events_def)
  qed
  have c4: "strip s = str_strip s" by (simp add: strip_def)
  have c5: "\<exists>l r. s = l @ str_strip s @ r \<and> (\<forall>c\<in>set l. is_space c) \<and> (\<forall>c\<in>set r. is_space c)"
    by (rule str_strip_decompose)
  have c6: "str_strip s = [] \<or> (\<not> is_space (hd (str_strip s)) \<and> \<not> is_space (last (str_strip s)))"
    by (rule str_strip_ends)
  have c7: "str_strip (str_strip s) = str_strip s"
    by (rule str_strip_idem)
  have c8: "fst (NLGEval_compute_metrics cs self ref_list hyp_list t) = Inr rep \<longrightarrow>
        new_events t (snd (NLGEval_compute_metrics cs self ref_list hyp_list t)) =
          map (\<lambda>(sc, m). Compute sc ?BR ?BH) (scorers self)"
  proof (cases "length (zip_star ref_list) = length hyp_list")
    case True
    show ?thesis
      unfolding batch [OF True] expected_calls_quiet [symmetric]
      by (rule impI) (rule run_scorers_quiet_success)
  next
    case False
    show ?thesis
      unfolding batch_fail [OF False] by simp
  qed
  have c9: "scorers self = (sc0, m0) # rest \<longrightarrow>
        (\<exists>es. new_events t (snd (NLGEval_compute_individual_metrics cs self (Seq refs) (Str hyp) t)) =
           Compute sc0 ?R ?H # es)"
  proof
    assume l: "scorers self = (sc0, m0) # rest"
    show "\<exists>es. new_events t (snd (NLGEval_compute_individual_metrics cs self (Seq refs) (Str hyp) t)) =
           Compute sc0 ?R ?H # es"
      unfolding single l by (rule run_scorers_first_new_event)
  qed
  have c10: "scorers self = (sc0, m0) # rest \<and> length (zip_star ref_list) = length hyp_list \<longrightarrow>
        (\<exists>es. new_events t (snd (NLGEval_compute_metrics cs self ref_list hyp_list t)) =
           Compute sc0 ?BR ?BH # es)"
  proof
    assume a: "scorers self = (sc0, m0) # rest \<and> length (zip_star ref_list) = length hyp_list"
    then have l: "scorers self = (sc0, m0) # rest"
      and len: "length (zip_star ref_list) = length hyp_list" by blast+
    show "\<exists>es. new_events t (snd (NLGEval_compute_metrics cs self ref_list hyp_list t)) =
           Compute sc0 ?BR ?BH # es"
      unfolding batch [OF len] l by (rule run_scorers_first_new_event)
  qed
  have c11: "\<exists>es. new_events t (snd (compute_individual_metrics cs (Seq refs) (Str hyp) t)) =
         Compute (Bleu 4) ?R ?H # es"
    unfolding lsingle legacy_scorers_def by (rule run_scorers_first_new_event)
  have c12: "\<forall>e\<in>set (new_events t (snd (compute_individual_metrics cs (Seq refs) (Str hyp) t))).
        e = Close Meteor \<or> (\<exists>sc. e = Compute sc ?R ?H)"
    unfolding lsingle by (rule run_scorers_legacy_events)
  have c13: "fst (compute_individual_metrics cs (Seq refs) (Str hyp) t) = Inr rep \<longrightarrow>
        new_events t (snd (compute_individual_metrics cs (Seq refs) (Str hyp) t)) =
          (let R = ?R; H = ?H
           in [Compute (Bleu 4) R H, Compute Meteor R H, Close Meteor,
               Compute Rouge R H, Compute Cider R H, Compute Spice R H])"
    unfolding lsingle Let_def legacy_expected_calls [symmetric]
    by (rule impI) (rule run_scorers_quiet_success)
  have c14: "readlines fs hypothesis = Inr hyp_list \<and> read_references fs references [] = Inr ref_list
        \<and> length (zip_star ref_list) = length hyp_list \<longrightarrow>
        (\<exists>es. new_events t (snd (compute_metrics cs fs hypothesis references t)) =
           Compute (Bleu 4) ?BR ?BH # es)
        \<and> (\<forall>e\<in>set (new_events t (snd (compute_metrics cs fs hypothesis references t))).
             is_print e \<or> e = Close Meteor \<or> (\<exists>sc. e = Compute sc ?BR ?BH))
        \<and> (fst (compute_metrics cs fs hypothesis references t) = Inr rep \<longrightarrow>
             filter (\<lambda>e. \<not> is_print e)
               (new_events t (snd (compute_metrics cs fs hypothesis references t))) =
             (let R = ?BR; H = ?BH
              in [Compute (Bleu 4) R H, Compute Meteor R H, Close Meteor,
                  Compute Rouge R H, Compute Cider R H, Compute Spice R H]))"
  proof
    assume a: "readlines fs hypothesis = Inr hyp_list \<and> read_references fs references [] = Inr ref_list
        \<and> length (zip_star ref_list) = length hyp_list"
    have f: "\<exists>es. new_events t (snd (compute_metrics cs fs hypothesis references t)) =
           Compute (Bleu 4) ?BR ?BH # es"
      unfolding lbatch [OF a] legacy_scorers_def by (rule run_scorers_first_new_event)
    have e: "\<forall>e\<in>set (new_events t (snd (compute_metrics cs fs hypothesis references t))).
             is_print e \<or> e = Close Meteor \<or> (\<exists>sc. e = Compute sc ?BR ?BH)"
      unfolding lbatch [OF a] by (rule run_scorers_printing_events)
    have s: "fst (compute_metrics cs fs hypothesis references t) = Inr rep \<longrightarrow>
             filter (\<lambda>e. \<not> is_print e)
               (new_events t (snd (compute_metrics cs fs hypothesis references t))) =
             (let R = ?BR; H = ?BH
              in [Compute (Bleu 4) R H, Compute Meteor R H, Close Meteor,
                  Compute Rouge R H, Compute Cider R H, Compute Spice R H])"
      unfolding lbatch [OF a] Let_def legacy_expected_calls [symmetric]
      by (rule impI) (rule run_scorers_printing_success)
    show "(\<exists>es. new_events t (snd (compute_metrics cs fs hypothesis references t)) =
           Compute (Bleu 4) ?BR ?BH # es)
        \<and> (\<forall>e\<in>set (new_events t (snd (compute_metrics cs fs hypothesis references t))).
             is_print e \<or> e = Close Meteor \<or> (\<exists>sc. e = Compute sc ?BR ?BH))
        \<and> (fst (compute_metrics cs fs hypothesis references t) = Inr rep \<longrightarrow>
             filter (\<lambda>e. \<not> is_print e)
               (new_events t (snd (compute_metrics cs fs hypothesis references t))) =
             (let R = ?BR; H = ?BH
              in [Compute (Bleu 4) R H, Compute Meteor R H, Close Meteor,
                  Compute Rouge R H, Compute Cider R H, Compute Spice R H]))"
      by (intro conjI f e s)
  qed
  show ?thesis
    by (intro conjI c1 c2 c3 c4 c5 c6 c7 c8 c9 c10 c11 c12 c13 c14)
qed

text \<open>
  Padded strings in, trimmed strings at the scorer: single-pair and batch evaluation of
  an evaluator, the legacy batch function on two files, and the legacy single-pair
  function with every scorer answering.
\<close>
theorem aligned_strings_are_trimmed_witness:
  "new_events []
     (snd (NLGEval_compute_individual_metrics (\<lambda>t s refs hyps. Inr (Scalar (2::nat)))
        \<lparr>metrics_to_omit = {''Bleu_1'', ''METEOR'', ''CIDEr'', ''SPICE''},
         scorers = [(Rouge, Name ''ROUGE_L'')]\<rparr>
        (Seq [''  the cat sat on the mat '', ''a cat sat'']) (Str '' the cat sat  '') []))
     = [Compute Rouge [(0, [''the cat sat on the mat'', ''a cat sat''])] [(0, [''the cat sat''])]]
   \<and> str_strip (str_strip '' the cat sat  '') = ''the cat sat''
   \<and> new_events []
     (snd (NLGEval_compute_metrics (\<lambda>t s refs hyps. Inr (Scalar (2::nat)))
        \<lparr>metrics_to_omit = {''Bleu_1'', ''METEOR'', ''CIDEr'', ''SPICE''},
         scorers = [(Rouge, Name ''ROUGE_L'')]\<rparr>
        [[''  a cat '', '' b ''], [''c '', ''d'']] ['' x'', ''y ''] []))
     = [Compute Rouge [(0, [''a cat'', ''c'']), (1, [''b'', ''d''])] [(0, [''x'']), (1, [''y''])]]
   \<and> (\<exists>es. new_events []
        (snd (compute_metrics (\<lambda>t s refs hyps. Inr (Scalar (2::nat)))
           [''hyp.txt'' \<mapsto> ['' x'', ''y ''], ''ref.txt'' \<mapsto> [''  a cat '', '' b '']]
           ''hyp.txt'' [''ref.txt''] []))
        = Compute (Bleu 4) [(0, [''a cat'']), (1, [''b''])] [(0, [''x'']), (1, [''y''])] # es)
   \<and> new_events []
     (snd (compute_individual_metrics
        (\<lambda>t s refs hyps. if s = Bleu 4 then Inr (Vector [1, 1, 1, 1]) else Inr (Scalar (2::nat)))
        (Seq ['' a cat sat '']) (Str ''the cat sat '') []))
     = [Compute (Bleu 4) [(0, [''a cat sat''])] [(0, [''the cat sat''])],
        Compute Meteor [(0, [''a cat sat''])] [(0, [''the cat sat''])],
        Close Meteor,
        Compute Rouge [(0, [''a cat sat''])] [(0, [''the cat sat''])],
        Compute Cider [(0, [''a cat sat''])] [(0, [''the cat sat''])],
        Compute Spice [(0, [''a cat sat''])] [(0, [''the cat sat''])]]"
proof -
  let ?cs = "\<lambda>(t :: nat event list) (s :: scorer) (refs :: string list dict)
     (hyps :: string list dict). Inr (Scalar (2::nat)) :: error + nat score"
  let ?cs2 = "\<lambda>(t :: nat event list) s (refs :: string list dict) (hyps :: string list dict).
     if s = Bleu 4 then Inr (Vector [1, 1, 1, 1]) else Inr (Scalar (2::nat)) :: error + nat score"
  let ?rep2 = "[''Bleu_1'' \<mapsto> Scalar 1, ''Bleu_2'' \<mapsto> Scalar 1, ''Bleu_3'' \<mapsto> Scalar 1,
            ''Bleu_4'' \<mapsto> Scalar 1, ''METEOR'' \<mapsto> Scalar 2, ''ROUGE_L'' \<mapsto> Scalar 2,
            ''CIDEr'' \<mapsto> Scalar 2, ''SPICE'' \<mapsto> Scalar (2::nat)]"
  have s5: "str_strip '' a cat sat '' = ''a cat sat''" "str_strip ''the cat sat '' = ''the cat sat''"
    by (simp_all add: str_strip_def is_space_def)
  have ok2: "fst (compute_individual_metrics ?cs2 (Seq ['' a cat sat '']) (Str ''the cat sat '') [])
     = Inr ?rep2"
    by (simp add: compute_individual_metrics_def legacy_scorers_def store_def Let_def)
  note w = aligned_strings_are_trimmed [where t = "[]" and cs = ?cs2
      and refs = "['' a cat sat '']" and hyp = "''the cat sat ''" and rep = ?rep2]
  from w have "new_events []
     (snd (compute_individual_metrics ?cs2 (Seq ['' a cat sat '']) (Str ''the cat sat '') []))
     = (let R = [(0, map str_strip ['' a cat sat ''])]; H = [(0, [str_strip ''the cat sat ''])]
           in [Compute (Bleu 4) R H, Compute Meteor R H, Close Meteor,
               Compute Rouge R H, Compute Cider R H, Compute Spice R H])"
    using ok2 by blast
  then have e: "new_events []
     (snd (compute_individual_metrics ?cs2 (Seq ['' a cat sat '']) (Str ''the cat sat '') []))
     = [Compute (Bleu 4) [(0, [''a cat sat''])] [(0, [''the cat sat''])],
        Compute Meteor [(0, [''a cat sat''])] [(0, [''the cat sat''])],
        Close Meteor,
        Compute Rouge [(0, [''a cat sat''])] [(0, [''the cat sat''])],
        Compute Cider [(0, [''a cat sat''])] [(0, [''the cat sat''])],
        Compute Spice [(0, [''a cat sat''])] [(0, [''the cat sat''])]]"
    by (simp add: Let_def s5)
  let ?self = "\<lparr>metrics_to_omit = {''Bleu_1'', ''METEOR'', ''CIDEr'', ''SPICE''},
         scorers = [(Rouge, Name ''ROUGE_L'')]\<rparr>"
  let ?refs = "[''  the cat sat on the mat '', ''a cat sat'']"
  let ?rl = "[[''  a cat '', '' b ''], [''c '', ''d'']]"
  let ?hl = "['' x'', ''y '']"
  let ?fs = "[''hyp.txt'' \<mapsto> ['' x'', ''y ''], ''ref.txt'' \<mapsto> [''  a cat '', '' b '']]"
  have s1: "str_strip ''  the cat sat on the mat '' = ''the cat sat on the mat''"
    by (simp add: str_strip_def is_space_def)
  have s2: "str_strip ''a cat sat'' = ''a cat sat''"
    by (simp add: str_strip_def is_space_def)
  have s3: "str_strip '' the cat sat  '' = ''the cat sat''"
    by (simp add: str_strip_def is_space_def)
  have s4: "str_strip ''  a cat '' = ''a cat''" "str_strip '' b '' = ''b''"
    "str_strip ''c '' = ''c''" "str_strip ''d'' = ''d''"
    "str_strip '' x'' = ''x''" "str_strip ''y '' = ''y''"
    by (simp_all add: str_strip_def is_space_def)
  have z: "zip_star ?rl = [[''  a cat '', ''c ''], ['' b '', ''d'']]"
    by (simp add: zip_star.simps)
  have z1: "zip_star [[''  a cat '', '' b '']] = [[''  a cat ''], ['' b '']]"
    by (simp add: zip_star.simps)
  have ok: "fst (NLGEval_compute_individual_metrics ?cs ?self (Seq ?refs) (Str '' the cat sat  '') [])
      = Inr [''ROUGE_L'' \<mapsto> Scalar 2]"
    by (simp add: NLGEval_compute_individual_metrics_def store_def Let_def)
  have okb: "fst (NLGEval_compute_metrics ?cs ?self ?rl ?hl []) = Inr [''ROUGE_L'' \<mapsto> Scalar 2]"
    by (simp add: NLGEval_compute_metrics_def store_def Let_def z)
  have r1: "readlines ?fs ''hyp.txt'' = Inr ?hl"
    by (simp add: readlines_def)
  have r2: "read_references ?fs [''ref.txt''] [] = Inr [[''  a cat '', '' b '']]"
    by (simp add: readlines_def)
  have len: "length (zip_star [[''  a cat '', '' b '']]) = length ?hl"
    by (simp add: z1)
  note t = aligned_strings_are_trimmed [where t = "[]" and cs = ?cs and self = ?self
      and refs = ?refs and hyp = "'' the cat sat  ''" and rep = "[''ROUGE_L'' \<mapsto> Scalar 2]"
      and ref_list = ?rl and hyp_list = ?hl and s = "'' the cat sat  ''"]
  note u = aligned_strings_are_trimmed [where t = "[]" and cs = ?cs and fs = ?fs
      and hypothesis = "''hyp.txt''" and references = "[''ref.txt'']"
      and ref_list = "[[''  a cat '', '' b '']]" and hyp_list = ?hl]
  from t have "new_events []
     (snd (NLGEval_compute_individual_metrics ?cs ?self (Seq ?refs) (Str '' the cat sat  '') []))
     = map (\<lambda>(sc, m). Compute sc [(0, map str_strip ?refs)] [(0, [str_strip '' the cat sat  ''])])
         (scorers ?self)"
    using ok by blast
  then have a: "new_events []
     (snd (NLGEval_compute_individual_metrics ?cs ?self (Seq ?refs) (Str '' the cat sat  '') []))
     = [Compute Rouge [(0, [''the cat sat on the mat'', ''a cat sat''])] [(0, [''the cat sat''])]]"
    by (simp add: s1 s2 s3)
  from t have "str_strip (str_strip '' the cat sat  '') = str_strip '' the cat sat  ''"
    by blast
  then have b: "str_strip (str_strip '' the cat sat  '') = ''the cat sat''"
    by (simp only: s3)
  from t have "new_events [] (snd (NLGEval_compute_metrics ?cs ?self ?rl ?hl []))
     = map (\<lambda>(sc, m). Compute sc (enumerate 0 (map (map strip) (zip_star ?rl)))
                                   (enumerate 0 (map (\<lambda>h. [str_strip h]) ?hl)))
         (scorers ?self)"
    using okb by blast
  then have c: "new_events [] (snd (NLGEval_compute_metrics ?cs ?self ?rl ?hl []))
     = [Compute Rouge [(0, [''a cat'', ''c'']), (1, [''b'', ''d''])] [(0, [''x'']), (1, [''y''])]]"
    by (simp add: z strip_def s4)
  from u have "\<exists>es. new_events [] (snd (compute_metrics ?cs ?fs ''hyp.txt'' [''ref.txt''] []))
        = Compute (Bleu 4) (enumerate 0 (map (map strip) (zip_star [[''  a cat '', '' b '']])))
                           (enumerate 0 (map (\<lambda>h. [str_strip h]) ?hl)) # es"
    using r1 r2 len by blast
  then have d: "\<exists>es. new_events [] (snd (compute_metrics ?cs ?fs ''hyp.txt'' [''ref.txt''] []))
        = Compute (Bleu 4) [(0, [''a cat'']), (1, [''b''])] [(0, [''x'']), (1, [''y''])] # es"
    by (simp add: z1 strip_def s4)
  show ?thesis
    by (intro conjI a b c d e)
qed

text \<open>
  C9. In the module-level single-pair function a reference given as one string is split
  on the literal delimiter and every piece is trimmed: the first call (to Bleu) and
  every later call receive the trimmed pieces as the reference set. The pieces are the
  segments of the string (joining them with the delimiter gives the string back, and no
  piece contains the delimiter). The method of \<^verbatim>\<open>NLGEval\<close> does not split: given a string
  it passes the characters, each trimmed.
\<close>
theorem legacy_string_reference_is_split:
  "(\<exists>es. new_events t (snd (compute_individual_metrics cs (Str s) (Str hyp) t)) =
        Compute (Bleu 4) [(0, map str_strip (str_split s delimiter))] [(0, [str_strip hyp])] # es)
   \<and> (\<forall>e\<in>set (new_events t (snd (compute_individual_metrics cs (Str s) (Str hyp) t))).
        e = Close Meteor \<or>
        (\<exists>sc. e = Compute sc [(0, map str_strip (str_split s delimiter))] [(0, [str_strip hyp])]))
   \<and> str_join delimiter (str_split s delimiter) = s
   \<and> (\<forall>p\<in>set (str_split s delimiter). \<not> sublist delimiter p)
   \<and> (\<forall>e\<in>set (new_events t (snd (NLGEval_compute_individual_metrics cs self (Str s) (Str hyp) t))).
        \<exists>sc. e = Compute sc [(0, map (\<lambda>a. str_strip [a]) s)] [(0, [str_strip hyp])])"
proof (intro conjI)
  let ?refs = "[(0, map str_strip (str_split s delimiter))] :: string list dict"
  let ?hyps = "[(0, [str_strip hyp])] :: string list dict"
  have eq: "compute_individual_metrics cs (Str s) (Str hyp) t =
      run_scorers cs False True legacy_scorers ?refs ?hyps Map.empty t"
    by (simp add: compute_individual_metrics_def)
  obtain es where "snd (run_scorers cs False True legacy_scorers ?refs ?hyps Map.empty t) =
      t @ Compute (Bleu 4) ?refs ?hyps # es"
    unfolding legacy_scorers_def using run_scorers_first_event by blast
  then show "\<exists>es. new_events t (snd (compute_individual_metrics cs (Str s) (Str hyp) t)) =
        Compute (Bleu 4) ?refs ?hyps # es"
    by (simp add: eq new_events_append)
  show "\<forall>e\<in>set (new_events t (snd (compute_individual_metrics cs (Str s) (Str hyp) t))).
        e = Close Meteor \<or> (\<exists>sc. e = Compute sc ?refs ?hyps)"
    unfolding eq by (rule run_scorers_legacy_events)
  show "str_join delimiter (str_split s delimiter) = s"
    by (rule join_split)
  show "\<forall>p\<in>set (str_split s delimiter). \<not> sublist delimiter p"
    by (rule split_pieces) (simp add: delimiter_def)
  have eq': "NLGEval_compute_individual_metrics cs self (Str s) (Str hyp) t =
      run_scorers cs False False (scorers self)
        [(0, map (\<lambda>a. str_strip [a]) s)] ?hyps Map.empty t"
    by (simp add: NLGEval_compute_individual_metrics_def)
  show "\<forall>e\<in>set (new_events t (snd (NLGEval_compute_individual_metrics cs self (Str s) (Str hyp) t))).
        \<exists>sc. e = Compute sc [(0, map (\<lambda>a. str_strip [a]) s)] ?hyps"
    unfolding eq' by (rule run_scorers_quiet_events)
qed

text \<open>One delimiter, two references for the legacy function; eleven one-character pieces for the method.\<close>

theorem legacy_string_reference_is_split_witness:
  "(\<exists>es. new_events []
      (snd (compute_individual_metrics (\<lambda>t s refs hyps. Inl (MetricError ''bleu''))
         (Str ''a cat sat ||<|>|| the cat sat on the mat'') (Str ''the cat sat'')
         ([] :: nat event list)))
      = Compute (Bleu 4) [(0, [''a cat sat'', ''the cat sat on the mat''])] [(0, [''the cat sat''])] # es)
   \<and> new_events []
      (snd (NLGEval_compute_individual_metrics (\<lambda>t s refs hyps. Inl (MetricError ''rouge''))
         \<lparr>metrics_to_omit = {''Bleu_1'', ''METEOR'', ''CIDEr'', ''SPICE''},
          scorers = [(Rouge, Name ''ROUGE_L'')]\<rparr>
         (Str ''a ||<|>|| b'') (Str ''the cat sat'') ([] :: nat event list)))
      = [Compute Rouge
           [(0, [''a'', [], ''|'', ''|'', ''<'', ''|'', ''>'', ''|'', ''|'', [], ''b''])]
           [(0, [''the cat sat''])]]"
proof -
  have sp: "str_split ''a cat sat ||<|>|| the cat sat on the mat'' delimiter =
      [''a cat sat '', '' the cat sat on the mat'']"
    by (simp add: str_split_def delimiter_def)
  have st: "map str_strip [''a cat sat '', '' the cat sat on the mat''] =
      [''a cat sat'', ''the cat sat on the mat'']" "str_strip ''the cat sat'' = ''the cat sat''"
    by (simp_all add: str_strip_def is_space_def)
  have "\<exists>es. new_events []
      (snd (compute_individual_metrics (\<lambda>t s refs hyps. Inl (MetricError ''bleu''))
         (Str ''a cat sat ||<|>|| the cat sat on the mat'') (Str ''the cat sat'')
         ([] :: nat event list)))
      = Compute (Bleu 4) [(0, [''a cat sat'', ''the cat sat on the mat''])] [(0, [''the cat sat''])] # es"
    using legacy_string_reference_is_split
      [of "[]" "\<lambda>t s refs hyps. Inl (MetricError ''bleu'')"
         "''a cat sat ||<|>|| the cat sat on the mat''" "''the cat sat''", THEN conjunct1]
    by (simp only: sp st)
  moreover have "new_events []
      (snd (NLGEval_compute_individual_metrics (\<lambda>t s refs hyps. Inl (MetricError ''rouge''))
         \<lparr>metrics_to_omit = {''Bleu_1'', ''METEOR'', ''CIDEr'', ''SPICE''},
          scorers = [(Rouge, Name ''ROUGE_L'')]\<rparr>
         (Str ''a ||<|>|| b'') (Str ''the cat sat'') ([] :: nat event list)))
      = [Compute Rouge
           [(0, [''a'', [], ''|'', ''|'', ''<'', ''|'', ''>'', ''|'', ''|'', [], ''b''])]
           [(0, [''the cat sat''])]]"
    by (simp add: NLGEval_compute_individual_metrics_def new_events_def str_strip_def is_space_def)
  ultimately show ?thesis by blast
qed

text \<open>
  C10. Transposition truncates to the shortest source. For at least one reference source,
  the transposition yields as many reference sets as the shortest source has items,
  the i-th set holding the i-th item of every source; cutting every source to that
  length beforehand changes nothing, so the items beyond it are dropped without an
  error. The size assertion compares the number of hypotheses with this truncated
  count: a different number fails on the assertion, also when it equals the length of
  a longer source, and an equal number goes on to the scorers.
\<close>
theorem transposition_truncates_to_shortest:
  assumes "ref_list \<noteq> []"
  shows "let n = Min (set (map length ref_list)) in
     length (zip_star ref_list) = n
   \<and> (\<forall>i<n. zip_star ref_list ! i = map (\<lambda>source. source ! i) ref_list)
   \<and> NLGEval_compute_metrics cs self (map (take n) ref_list) hyp_list t =
       NLGEval_compute_metrics cs self ref_list hyp_list t
   \<and> (length hyp_list \<noteq> n \<longrightarrow>
        NLGEval_compute_metrics cs self ref_list hyp_list t = (Inl AssertionError, t))
   \<and> (length hyp_list = n \<longrightarrow>
        NLGEval_compute_metrics cs self ref_list hyp_list t =
          run_scorers cs False False (scorers self)
            (enumerate 0 (map (map strip) (zip_star ref_list)))
            (enumerate 0 (map (\<lambda>lines. [str_strip lines]) hyp_list)) Map.empty t)
   \<and> (readlines fs hypothesis = Inr hyp_list \<and> read_references fs references [] = Inr ref_list \<longrightarrow>
        (length hyp_list \<noteq> n \<longrightarrow>
           compute_metrics cs fs hypothesis references t = (Inl AssertionError, t))
      \<and> (length hyp_list = n \<longrightarrow>
           compute_metrics cs fs hypothesis references t =
             run_scorers cs True True legacy_scorers
               (enumerate 0 (map (map strip) (zip_star ref_list)))
               (enumerate 0 (map (\<lambda>lines. [str_strip lines]) hyp_list)) Map.empty t))"
proof -
  let ?n = "Min (set (map length ref_list))"
  have len: "length (zip_star ref_list) = ?n"
    using assms by (rule zip_star_length)
  have nth: "\<forall>i<?n. zip_star ref_list ! i = map (\<lambda>source. source ! i) ref_list"
    using zip_star_nth [of _ ref_list] by (simp only: len) blast
  have take: "NLGEval_compute_metrics cs self (map (take ?n) ref_list) hyp_list t =
       NLGEval_compute_metrics cs self ref_list hyp_list t"
    by (simp only: NLGEval_compute_metrics_def zip_star_take [OF assms])
  have ne: "length hyp_list \<noteq> ?n \<longrightarrow>
        NLGEval_compute_metrics cs self ref_list hyp_list t = (Inl AssertionError, t)"
    using len by (auto simp: NLGEval_compute_metrics_def Let_def)
  have eq: "length hyp_list = ?n \<longrightarrow>
        NLGEval_compute_metrics cs self ref_list hyp_list t =
          run_scorers cs False False (scorers self)
            (enumerate 0 (map (map strip) (zip_star ref_list)))
            (enumerate 0 (map (\<lambda>lines. [str_strip lines]) hyp_list)) Map.empty t"
    using len by (auto simp: NLGEval_compute_metrics_def Let_def)
  have legacy: "readlines fs hypothesis = Inr hyp_list \<and> read_references fs references [] = Inr ref_list \<longrightarrow>
        (length hyp_list \<noteq> ?n \<longrightarrow>
           compute_metrics cs fs hypothesis references t = (Inl AssertionError, t))
      \<and> (length hyp_list = ?n \<longrightarrow>
           compute_metrics cs fs hypothesis references t =
             run_scorers cs True True legacy_scorers
               (enumerate 0 (map (map strip) (zip_star ref_list)))
               (enumerate 0 (map (\<lambda>lines. [str_strip lines]) hyp_list)) Map.empty t)"
    using len by (auto simp: compute_metrics_def Let_def)
  show ?thesis
    unfolding Let_def by (intro conjI len nth take ne eq legacy)
qed

text \<open>Sources of three and two items: two reference sets; three hypotheses fail, two are scored.\<close>

theorem transposition_truncates_to_shortest_witness:
  "zip_star [[''a'', ''b'', ''c''], [''d'', ''e'']] = [[''a'', ''d''], [''b'', ''e'']]
   \<and> NLGEval_compute_metrics (\<lambda>t s refs hyps. Inr (Scalar (2::nat)))
        \<lparr>metrics_to_omit = {''Bleu_1'', ''METEOR'', ''CIDEr'', ''SPICE''},
         scorers = [(Rouge, Name ''ROUGE_L'')]\<rparr>
        [[''a'', ''b'', ''c''], [''d'', ''e'']] [''x'', ''y'', ''z''] [] = (Inl AssertionError, [])
   \<and> NLGEval_compute_metrics (\<lambda>t s refs hyps. Inr (Scalar (2::nat)))
        \<lparr>metrics_to_omit = {''Bleu_1'', ''METEOR'', ''CIDEr'', ''SPICE''},
         scorers = [(Rouge, Name ''ROUGE_L'')]\<rparr>
        [[''a'', ''b'', ''c''], [''d'', ''e'']] [''x'', ''y''] [] =
       (Inr [''ROUGE_L'' \<mapsto> Scalar 2],
        [Compute Rouge [(0, [''a'', ''d'']), (1, [''b'', ''e''])] [(0, [''x'']), (1, [''y''])]])"
proof -
  let ?rl = "[[''a'', ''b'', ''c''], [''d'', ''e'']]"
  let ?cs = "\<lambda>(t :: nat event list) (s :: scorer) (refs :: string list dict)
     (hyps :: string list dict). Inr (Scalar (2::nat)) :: error + nat score"
  let ?self = "\<lparr>metrics_to_omit = {''Bleu_1'', ''METEOR'', ''CIDEr'', ''SPICE''},
         scorers = [(Rouge, Name ''ROUGE_L'')]\<rparr>"
  have ne: "?rl \<noteq> []" by simp
  have n: "Min (set (map length ?rl)) = 2" by simp
  have z: "zip_star ?rl = [[''a'', ''d''], [''b'', ''e'']]"
    by (simp add: zip_star.simps)
  note t3 = transposition_truncates_to_shortest [OF ne, of ?cs ?self "[''x'', ''y'', ''z'']" "[]",
      unfolded Let_def n]
  note t2 = transposition_truncates_to_shortest [OF ne, of ?cs ?self "[''x'', ''y'']" "[]",
      unfolded Let_def n]
  have a: "NLGEval_compute_metrics ?cs ?self ?rl [''x'', ''y'', ''z''] [] = (Inl AssertionError, [])"
    using t3 by simp
  have "NLGEval_compute_metrics ?cs ?self ?rl [''x'', ''y''] [] =
      run_scorers ?cs False False (scorers ?self)
            (enumerate 0 (map (map strip) (zip_star ?rl)))
            (enumerate 0 (map (\<lambda>lines. [str_strip lines]) [''x'', ''y''])) Map.empty []"
    using t2 by simp
  then have b: "NLGEval_compute_metrics ?cs ?self ?rl [''x'', ''y''] [] =
       (Inr [''ROUGE_L'' \<mapsto> Scalar 2],
        [Compute Rouge [(0, [''a'', ''d'']), (1, [''b'', ''e''])] [(0, [''x'']), (1, [''y''])]])"
    by (simp add: z store_def strip_def str_strip_def is_space_def)
  show ?thesis
    by (intro conjI z a b)
qed

lemma run_scorers_never_closes:
  "\<forall>e\<in>set (new_events t (snd (run_scorers cs printing False ds refs hyps ret t))). \<not> is_close e"
proof -
  obtain es where "snd (run_scorers cs printing False ds refs hyps ret t) = t @ es"
    and "\<forall>e\<in>set es. (\<exists>s. s \<in> fst ` set ds \<and> e = Compute s refs hyps)
                  \<or> (False \<and> e = Close Meteor) \<or> (printing \<and> is_print e)"
    using run_scorers_trace [of cs printing False ds refs hyps ret t] by blast
  moreover have "\<not> is_close e" if "is_print e" for e :: "'a event"
    using that by (cases e) simp_all
  ultimately show ?thesis
    by (auto simp: new_events_append)
qed

lemma run_scorers_closing_irrelevant:
  "Meteor \<notin> fst ` set ds \<Longrightarrow>
     run_scorers cs printing True ds refs hyps ret t =
     run_scorers cs printing False ds refs hyps ret t"
  by (induction ds arbitrary: ret t) (auto split: sum.splits prod.splits)

lemma store_names_vector:
  "store printing (Names ms) (Vector v) ret t =
     (Inr (fst (store_vector printing (zip v ms) ret t)),
      t @ (if printing then map (\<lambda>(sc, m). Print m sc) (zip v ms) else []))"
  using store_vector_trace [of printing "zip v ms" ret t]
  by (simp add: store_def case_prod_beta)

lemma run_scorers_after_meteor:
  "\<exists>es. snd (run_scorers cs printing True
             [(Rouge, Name ''ROUGE_L''), (Cider, Name ''CIDEr''), (Spice, Name ''SPICE'')]
             refs hyps ret t) = t @ Compute Rouge refs hyps # es
        \<and> (\<forall>e\<in>set es. \<not> is_close e)"
proof -
  let ?ds = "[(Rouge, Name ''ROUGE_L''), (Cider, Name ''CIDEr''), (Spice, Name ''SPICE'')]"
  have eq: "run_scorers cs printing True ?ds refs hyps ret t =
      run_scorers cs printing False ?ds refs hyps ret t"
    by (rule run_scorers_closing_irrelevant) simp
  obtain es where es: "snd (run_scorers cs printing False ?ds refs hyps ret t) =
      t @ Compute Rouge refs hyps # es"
    using run_scorers_first_event by blast
  have "\<forall>e\<in>set (new_events t (snd (run_scorers cs printing False ?ds refs hyps ret t))).
      \<not> is_close e"
    by (rule run_scorers_never_closes)
  then have "\<forall>e\<in>set (Compute Rouge refs hyps # es). \<not> is_close e"
    by (simp only: es new_events_append)
  then have "\<forall>e\<in>set es. \<not> is_close e"
    by simp
  with es show ?thesis
    unfolding eq by blast
qed

lemma legacy_loop_quiet:
  assumes b: "cs t (Bleu 4) refs hyps = Inr (Vector v)"
    and m: "cs (t @ [Compute (Bleu 4) refs hyps]) Meteor refs hyps = Inr sc"
  shows "\<exists>es. new_events t (snd (run_scorers cs False True legacy_scorers refs hyps ret t)) =
           [Compute (Bleu 4) refs hyps, Compute Meteor refs hyps, Close Meteor,
            Compute Rouge refs hyps] @ es
         \<and> (\<forall>e\<in>set es. \<not> is_close e)"
proof -
  let ?ds = "[(Rouge, Name ''ROUGE_L''), (Cider, Name ''CIDEr''), (Spice, Name ''SPICE'')]"
  let ?t3 = "t @ [Compute (Bleu 4) refs hyps, Compute Meteor refs hyps, Close Meteor]"
  define ret1 where "ret1 = fst (store_vector False
      (zip v [''Bleu_1'', ''Bleu_2'', ''Bleu_3'', ''Bleu_4'']) ret (t @ [Compute (Bleu 4) refs hyps]))"
  have s1: "run_scorers cs False True legacy_scorers refs hyps ret t =
      run_scorers cs False True ((Meteor, Name ''METEOR'') # ?ds) refs hyps ret1
        (t @ [Compute (Bleu 4) refs hyps])"
    by (simp add: legacy_scorers_def run_scorers_step b store_names_vector ret1_def
        del: run_scorers.simps)
  have s2: "run_scorers cs False True ((Meteor, Name ''METEOR'') # ?ds) refs hyps ret1
        (t @ [Compute (Bleu 4) refs hyps]) =
      run_scorers cs False True ?ds refs hyps (ret1(''METEOR'' \<mapsto> sc)) ?t3"
    by (simp add: run_scorers_step m store_def del: run_scorers.simps)
  have run: "run_scorers cs False True legacy_scorers refs hyps ret t =
      run_scorers cs False True ?ds refs hyps (ret1(''METEOR'' \<mapsto> sc)) ?t3"
    by (simp only: s1 s2)
  obtain es where es: "snd (run_scorers cs False True ?ds refs hyps (ret1(''METEOR'' \<mapsto> sc)) ?t3) =
      ?t3 @ Compute Rouge refs hyps # es" and nc: "\<forall>e\<in>set es. \<not> is_close e"
    using run_scorers_after_meteor by blast
  have "new_events t (snd (run_scorers cs False True legacy_scorers refs hyps ret t)) =
      [Compute (Bleu 4) refs hyps, Compute Meteor refs hyps, Close Meteor,
            Compute Rouge refs hyps] @ es"
    by (simp only: run es) (simp add: new_events_def)
  with nc show ?thesis by blast
qed

lemma legacy_loop_printing:
  assumes b: "cs t (Bleu 4) refs hyps = Inr (Vector v)"
    and m: "cs (t @ Compute (Bleu 4) refs hyps #
                  map (\<lambda>(sc, m). Print m sc) (zip v [''Bleu_1'', ''Bleu_2'', ''Bleu_3'', ''Bleu_4'']))
               Meteor refs hyps = Inr (Scalar x)"
  shows "\<exists>es. new_events t (snd (run_scorers cs True True legacy_scorers refs hyps ret t)) =
           Compute (Bleu 4) refs hyps #
             map (\<lambda>(sc, m). Print m sc) (zip v [''Bleu_1'', ''Bleu_2'', ''Bleu_3'', ''Bleu_4'']) @
           [Compute Meteor refs hyps, Print ''METEOR'' x, Close Meteor,
            Compute Rouge refs hyps] @ es
         \<and> (\<forall>e\<in>set es. \<not> is_close e)"
proof -
  let ?ds = "[(Rouge, Name ''ROUGE_L''), (Cider, Name ''CIDEr''), (Spice, Name ''SPICE'')]"
  let ?pr = "map (\<lambda>(sc, m). Print m sc) (zip v [''Bleu_1'', ''Bleu_2'', ''Bleu_3'', ''Bleu_4''])"
  let ?t3 = "t @ Compute (Bleu 4) refs hyps # ?pr @
      [Compute Meteor refs hyps, Print ''METEOR'' x, Close Meteor]"
  let ?t1 = "t @ Compute (Bleu 4) refs hyps # ?pr"
  define ret1 where "ret1 = fst (store_vector True
      (zip v [''Bleu_1'', ''Bleu_2'', ''Bleu_3'', ''Bleu_4'']) ret (t @ [Compute (Bleu 4) refs hyps]))"
  have s1: "run_scorers cs True True legacy_scorers refs hyps ret t =
      run_scorers cs True True ((Meteor, Name ''METEOR'') # ?ds) refs hyps ret1 ?t1"
    by (simp add: legacy_scorers_def run_scorers_step b store_names_vector ret1_def
        del: run_scorers.simps)
  have s2: "run_scorers cs True True ((Meteor, Name ''METEOR'') # ?ds) refs hyps ret1 ?t1 =
      run_scorers cs True True ?ds refs hyps (ret1(''METEOR'' \<mapsto> Scalar x)) ?t3"
    by (simp add: run_scorers_step m store_def del: run_scorers.simps)
  have run: "run_scorers cs True True legacy_scorers refs hyps ret t =
      run_scorers cs True True ?ds refs hyps (ret1(''METEOR'' \<mapsto> Scalar x)) ?t3"
    by (simp only: s1 s2)
  obtain es where es: "snd (run_scorers cs True True ?ds refs hyps (ret1(''METEOR'' \<mapsto> Scalar x)) ?t3) =
      ?t3 @ Compute Rouge refs hyps # es" and nc: "\<forall>e\<in>set es. \<not> is_close e"
    using run_scorers_after_meteor by blast
  have "new_events t (snd (run_scorers cs True True legacy_scorers refs hyps ret t)) =
      Compute (Bleu 4) refs hyps # ?pr @
           [Compute Meteor refs hyps, Print ''METEOR'' x, Close Meteor,
            Compute Rouge refs hyps] @ es"
    by (simp only: run es) (simp add: new_events_def)
  with nc show ?thesis by blast
qed

text \<open>
  C2, as stated, fails. In the legacy single-pair function, when METEOR's \<^verbatim>\<open>compute_score\<close>
  raises, the exception leaves the loop before the \<^verbatim>\<open>close\<close> that follows it, and when Bleu's
  raises, the loop never reaches METEOR: both calls end without a release. An evaluator
  built with METEOR in its list runs it and returns its report without any \<^verbatim>\<open>close\<close>.
\<close>
theorem close_not_on_every_exit_path:
  "compute_individual_metrics
     (\<lambda>t s refs hyps. if s = Meteor then Inl (MetricError ''meteor'') else Inr (Vector [1, 1, 1, 1 :: nat]))
     (Seq [''a cat sat'']) (Str ''the cat sat'') []
   = (Inl (MetricError ''meteor''),
      [Compute (Bleu 4) [(0, [''a cat sat''])] [(0, [''the cat sat''])],
       Compute Meteor [(0, [''a cat sat''])] [(0, [''the cat sat''])]])
   \<and> compute_individual_metrics
     (\<lambda>t s refs hyps. Inl (MetricError ''bleu'') :: error + nat score)
     (Seq [''a cat sat'']) (Str ''the cat sat'') []
   = (Inl (MetricError ''bleu''),
      [Compute (Bleu 4) [(0, [''a cat sat''])] [(0, [''the cat sat''])]])
   \<and> NLGEval_init (Some [''Bleu_1'', ''ROUGE_L'', ''CIDEr'', ''SPICE'']) =
       Inr \<lparr>metrics_to_omit = {''Bleu_1'', ''ROUGE_L'', ''CIDEr'', ''SPICE''},
            scorers = [(Meteor, Name ''METEOR'')]\<rparr>
   \<and> NLGEval_compute_individual_metrics
       (\<lambda>t s refs hyps. Inr (Scalar (2::nat)))
       \<lparr>metrics_to_omit = {''Bleu_1'', ''ROUGE_L'', ''CIDEr'', ''SPICE''},
        scorers = [(Meteor, Name ''METEOR'')]\<rparr>
       (Seq [''a cat sat'']) (Str ''the cat sat'') []
     = (Inr [''METEOR'' \<mapsto> Scalar 2],
        [Compute Meteor [(0, [''a cat sat''])] [(0, [''the cat sat''])]])"
proof (intro conjI)
  show "compute_individual_metrics
     (\<lambda>t s refs hyps. if s = Meteor then Inl (MetricError ''meteor'') else Inr (Vector [1, 1, 1, 1 :: nat]))
     (Seq [''a cat sat'']) (Str ''the cat sat'') []
   = (Inl (MetricError ''meteor''),
      [Compute (Bleu 4) [(0, [''a cat sat''])] [(0, [''the cat sat''])],
       Compute Meteor [(0, [''a cat sat''])] [(0, [''the cat sat''])]])"
    by (simp add: compute_individual_metrics_def legacy_scorers_def store_def
        str_strip_def is_space_def Let_def)
  show "compute_individual_metrics
     (\<lambda>t s refs hyps. Inl (MetricError ''bleu'') :: error + nat score)
     (Seq [''a cat sat'']) (Str ''the cat sat'') []
   = (Inl (MetricError ''bleu''),
      [Compute (Bleu 4) [(0, [''a cat sat''])] [(0, [''the cat sat''])]])"
    by (simp add: compute_individual_metrics_def legacy_scorers_def
        str_strip_def is_space_def Let_def)
  have "set [''Bleu_1'', ''ROUGE_L'', ''CIDEr'', ''SPICE''] \<subseteq> valid_metrics"
    by (simp add: valid_metrics_def)
  then show "NLGEval_init (Some [''Bleu_1'', ''ROUGE_L'', ''CIDEr'', ''SPICE'']) =
       Inr \<lparr>metrics_to_omit = {''Bleu_1'', ''ROUGE_L'', ''CIDEr'', ''SPICE''},
            scorers = [(Meteor, Name ''METEOR'')]\<rparr>"
    by (simp add: init_valid load_scorers_eq bleu_loop_range)
  show "NLGEval_compute_individual_metrics
       (\<lambda>t s refs hyps. Inr (Scalar (2::nat)))
       \<lparr>metrics_to_omit = {''Bleu_1'', ''ROUGE_L'', ''CIDEr'', ''SPICE''},
        scorers = [(Meteor, Name ''METEOR'')]\<rparr>
       (Seq [''a cat sat'']) (Str ''the cat sat'') []
     = (Inr [''METEOR'' \<mapsto> Scalar 2],
        [Compute Meteor [(0, [''a cat sat''])] [(0, [''the cat sat''])]])"
    by (simp add: NLGEval_compute_individual_metrics_def store_def
        str_strip_def is_space_def Let_def)
qed

text \<open>
  C2, amended. In the legacy module-level functions, once Bleu and METEOR have answered
  (Bleu with a sequence, METEOR with a score, which the batch function prints as a
  number), \<^verbatim>\<open>close\<close> has been called on METEOR right after its result was stored and
  printed, before ROUGE_L is called, and it is not called again, whatever ROUGE_L, CIDEr
  and SPICE then do: the call may return a report or end with the error one of them
  raises. A call that returns a report has made exactly the calls Bleu, METEOR, \<^verbatim>\<open>close\<close>
  on METEOR, ROUGE_L, CIDEr and SPICE. The methods of \<^verbatim>\<open>NLGEval\<close> call no \<^verbatim>\<open>close\<close> on any
  exit path: the evaluator keeps its list for the next call.
\<close>
theorem close_once_meteor_has_answered:
  "(refs = [(0, map str_strip (case ref of Str s \<Rightarrow> str_split s delimiter | Seq xs \<Rightarrow> xs))] \<and>
    hyps = [(0, [str_strip h])] \<and>
    cs t (Bleu 4) refs hyps = Inr (Vector v) \<and>
    cs (t @ [Compute (Bleu 4) refs hyps]) Meteor refs hyps = Inr sc \<longrightarrow>
      (\<exists>es. new_events t (snd (compute_individual_metrics cs ref (Str h) t)) =
          [Compute (Bleu 4) refs hyps, Compute Meteor refs hyps, Close Meteor,
           Compute Rouge refs hyps] @ es
        \<and> (\<forall>e\<in>set es. \<not> is_close e)))
   \<and> (readlines fs hypothesis = Inr hyp_list \<and>
      read_references fs references [] = Inr ref_list \<and>
      length (zip_star ref_list) = length hyp_list \<and>
      brefs = enumerate 0 (map (map strip) (zip_star ref_list)) \<and>
      bhyps = enumerate 0 (map (\<lambda>lines. [str_strip lines]) hyp_list) \<and>
      prints = map (\<lambda>(sc, m). Print m sc) (zip bv [''Bleu_1'', ''Bleu_2'', ''Bleu_3'', ''Bleu_4'']) \<and>
      cs t (Bleu 4) brefs bhyps = Inr (Vector bv) \<and>
      cs (t @ Compute (Bleu 4) brefs bhyps # prints) Meteor brefs bhyps = Inr (Scalar x) \<longrightarrow>
      (\<exists>es. new_events t (snd (compute_metrics cs fs hypothesis references t)) =
          Compute (Bleu 4) brefs bhyps # prints @
          [Compute Meteor brefs bhyps, Print ''METEOR'' x, Close Meteor,
           Compute Rouge brefs bhyps] @ es
        \<and> (\<forall>e\<in>set es. \<not> is_close e)))
   \<and> (fst (compute_individual_metrics cs ref hyp t) = Inr rep \<longrightarrow>
      (\<exists>refs hyps. new_events t (snd (compute_individual_metrics cs ref hyp t)) =
         [Compute (Bleu 4) refs hyps, Compute Meteor refs hyps, Close Meteor,
          Compute Rouge refs hyps, Compute Cider refs hyps, Compute Spice refs hyps]))
   \<and> (fst (compute_metrics cs fs hypothesis references t) = Inr rep \<longrightarrow>
      (\<exists>refs hyps. filter (\<lambda>e. \<not> is_print e)
            (new_events t (snd (compute_metrics cs fs hypothesis references t))) =
         [Compute (Bleu 4) refs hyps, Compute Meteor refs hyps, Close Meteor,
          Compute Rouge refs hyps, Compute Cider refs hyps, Compute Spice refs hyps]))
   \<and> (\<forall>e\<in>set (new_events t (snd (NLGEval_compute_individual_metrics cs self ref hyp t))).
        \<not> is_close e)
   \<and> (\<forall>e\<in>set (new_events t (snd (NLGEval_compute_metrics cs self ref_list hyp_list t))).
        \<not> is_close e)"
proof (intro conjI impI)
  assume a: "refs = [(0, map str_strip (case ref of Str s \<Rightarrow> str_split s delimiter | Seq xs \<Rightarrow> xs))] \<and>
    hyps = [(0, [str_strip h])] \<and>
    cs t (Bleu 4) refs hyps = Inr (Vector v) \<and>
    cs (t @ [Compute (Bleu 4) refs hyps]) Meteor refs hyps = Inr sc"
  then have eq: "compute_individual_metrics cs ref (Str h) t =
      run_scorers cs False True legacy_scorers refs hyps Map.empty t"
    by (simp add: compute_individual_metrics_def)
  from a have b: "cs t (Bleu 4) refs hyps = Inr (Vector v)"
    and m: "cs (t @ [Compute (Bleu 4) refs hyps]) Meteor refs hyps = Inr sc"
    by blast+
  show "\<exists>es. new_events t (snd (compute_individual_metrics cs ref (Str h) t)) =
          [Compute (Bleu 4) refs hyps, Compute Meteor refs hyps, Close Meteor,
           Compute Rouge refs hyps] @ es
        \<and> (\<forall>e\<in>set es. \<not> is_close e)"
    unfolding eq using b m by (rule legacy_loop_quiet)
next
  assume a: "readlines fs hypothesis = Inr hyp_list \<and>
      read_references fs references [] = Inr ref_list \<and>
      length (zip_star ref_list) = length hyp_list \<and>
      brefs = enumerate 0 (map (map strip) (zip_star ref_list)) \<and>
      bhyps = enumerate 0 (map (\<lambda>lines. [str_strip lines]) hyp_list) \<and>
      prints = map (\<lambda>(sc, m). Print m sc) (zip bv [''Bleu_1'', ''Bleu_2'', ''Bleu_3'', ''Bleu_4'']) \<and>
      cs t (Bleu 4) brefs bhyps = Inr (Vector bv) \<and>
      cs (t @ Compute (Bleu 4) brefs bhyps # prints) Meteor brefs bhyps = Inr (Scalar x)"
  then have eq: "compute_metrics cs fs hypothesis references t =
      run_scorers cs True True legacy_scorers brefs bhyps Map.empty t"
    by (simp add: compute_metrics_def)
  from a have pr: "prints =
      map (\<lambda>(sc, m). Print m sc) (zip bv [''Bleu_1'', ''Bleu_2'', ''Bleu_3'', ''Bleu_4''])"
    by blast
  from a have b: "cs t (Bleu 4) brefs bhyps = Inr (Vector bv)"
    and m: "cs (t @ Compute (Bleu 4) brefs bhyps # prints) Meteor brefs bhyps = Inr (Scalar x)"
    by blast+
  show "\<exists>es. new_events t (snd (compute_metrics cs fs hypothesis references t)) =
          Compute (Bleu 4) brefs bhyps # prints @
          [Compute Meteor brefs bhyps, Print ''METEOR'' x, Close Meteor,
           Compute Rouge brefs bhyps] @ es
        \<and> (\<forall>e\<in>set es. \<not> is_close e)"
    unfolding eq using b m unfolding pr by (rule legacy_loop_printing)
next
  assume ok: "fst (compute_individual_metrics cs ref hyp t) = Inr rep"
  then obtain h where h: "hyp = Str h"
    by (cases hyp) (simp_all add: compute_individual_metrics_def)
  define refs :: "string list dict"
    where "refs = [(0, map str_strip (case ref of Str s \<Rightarrow> str_split s delimiter | Seq xs \<Rightarrow> xs))]"
  define hyps :: "string list dict" where "hyps = [(0, [str_strip h])]"
  have eq: "compute_individual_metrics cs ref hyp t =
      run_scorers cs False True legacy_scorers refs hyps Map.empty t"
    by (simp add: compute_individual_metrics_def h refs_def hyps_def)
  from ok have "new_events t (snd (run_scorers cs False True legacy_scorers refs hyps Map.empty t))
      = expected_calls True legacy_scorers refs hyps"
    unfolding eq by (rule run_scorers_quiet_success)
  then show "\<exists>refs hyps. new_events t (snd (compute_individual_metrics cs ref hyp t)) =
         [Compute (Bleu 4) refs hyps, Compute Meteor refs hyps, Close Meteor,
          Compute Rouge refs hyps, Compute Cider refs hyps, Compute Spice refs hyps]"
    unfolding eq legacy_expected_calls by blast
next
  assume ok: "fst (compute_metrics cs fs hypothesis references t) = Inr rep"
  then obtain hyp_list where r1: "readlines fs hypothesis = Inr hyp_list"
    by (cases "readlines fs hypothesis") (simp_all add: compute_metrics_def)
  with ok obtain ref_list where r2: "read_references fs references [] = Inr ref_list"
    by (cases "read_references fs references []") (simp_all add: compute_metrics_def)
  define refs :: "string list dict"
    where "refs = enumerate 0 (map (map strip) (zip_star ref_list))"
  define hyps :: "string list dict"
    where "hyps = enumerate 0 (map (\<lambda>lines. [str_strip lines]) hyp_list)"
  have len: "length refs = length hyps"
    using ok r1 r2 by (cases "length refs = length hyps")
      (simp_all add: compute_metrics_def refs_def hyps_def)
  then have eq: "compute_metrics cs fs hypothesis references t =
      run_scorers cs True True legacy_scorers refs hyps Map.empty t"
    using r1 r2 by (simp add: compute_metrics_def refs_def hyps_def)
  from ok obtain es where
      es: "snd (run_scorers cs True True legacy_scorers refs hyps Map.empty t) = t @ es"
    and calls: "filter (\<lambda>e. \<not> is_print e) es = expected_calls True legacy_scorers refs hyps"
    unfolding eq using run_scorers_success_calls by blast
  then show "\<exists>refs hyps. filter (\<lambda>e. \<not> is_print e)
            (new_events t (snd (compute_metrics cs fs hypothesis references t))) =
         [Compute (Bleu 4) refs hyps, Compute Meteor refs hyps, Close Meteor,
          Compute Rouge refs hyps, Compute Cider refs hyps, Compute Spice refs hyps]"
    unfolding eq legacy_expected_calls by (auto simp: new_events_append)
next
  show "\<forall>e\<in>set (new_events t (snd (NLGEval_compute_individual_metrics cs self ref hyp t))).
        \<not> is_close e"
  proof (cases hyp)
    case (Str h)
    then have eq: "NLGEval_compute_individual_metrics cs self ref hyp t =
        run_scorers cs False False (scorers self)
          [(0, case ref of Str s \<Rightarrow> map (\<lambda>a. str_strip [a]) s | Seq xs \<Rightarrow> map str_strip xs)]
          [(0, [str_strip h])] Map.empty t"
      by (simp add: NLGEval_compute_individual_metrics_def)
    show ?thesis
      unfolding eq by (rule run_scorers_never_closes)
  next
    case (Seq hs)
    then show ?thesis
      by (simp add: NLGEval_compute_individual_metrics_def new_events_def)
  qed
next
  show "\<forall>e\<in>set (new_events t (snd (NLGEval_compute_metrics cs self ref_list hyp_list t))).
        \<not> is_close e"
  proof (cases "length (zip_star ref_list) = length hyp_list")
    case True
    then have eq: "NLGEval_compute_metrics cs self ref_list hyp_list t =
        run_scorers cs False False (scorers self)
          (enumerate 0 (map (map strip) (zip_star ref_list)))
          (enumerate 0 (map (\<lambda>lines. [str_strip lines]) hyp_list)) Map.empty t"
      by (simp add: NLGEval_compute_metrics_def)
    show ?thesis
      unfolding eq by (rule run_scorers_never_closes)
  next
    case False
    then show ?thesis
      by (simp add: NLGEval_compute_metrics_def new_events_def)
  qed
qed

text \<open>
  ROUGE_L raises after METEOR has answered: the single-pair call fails, and METEOR was
  closed. The same in the batch function, where CIDEr raises.
\<close>

theorem close_once_meteor_has_answered_witness:
  "compute_individual_metrics
     (\<lambda>t s refs hyps. if s = Bleu 4 then Inr (Vector [1, 1, 1, 1 :: nat])
                      else if s = Meteor then Inr (Scalar 2) else Inl (MetricError ''rouge''))
     (Seq [''a cat sat'']) (Str ''the cat sat'') []
   = (Inl (MetricError ''rouge''),
      [Compute (Bleu 4) [(0, [''a cat sat''])] [(0, [''the cat sat''])],
       Compute Meteor [(0, [''a cat sat''])] [(0, [''the cat sat''])],
       Close Meteor,
       Compute Rouge [(0, [''a cat sat''])] [(0, [''the cat sat''])]])
   \<and> (\<exists>es. new_events []
         (snd (compute_individual_metrics
           (\<lambda>t s refs hyps. if s = Bleu 4 then Inr (Vector [1, 1, 1, 1 :: nat])
                      else if s = Meteor then Inr (Scalar 2) else Inl (MetricError ''rouge''))
           (Seq [''a cat sat'']) (Str ''the cat sat'') [])) =
         [Compute (Bleu 4) [(0, [''a cat sat''])] [(0, [''the cat sat''])],
          Compute Meteor [(0, [''a cat sat''])] [(0, [''the cat sat''])],
          Close Meteor,
          Compute Rouge [(0, [''a cat sat''])] [(0, [''the cat sat''])]] @ es
         \<and> (\<forall>e\<in>set es. \<not> is_close e))
   \<and> compute_metrics
     (\<lambda>t s refs hyps. if s = Bleu 4 then Inr (Vector [1, 1, 1, 1 :: nat])
                      else if s = Cider then Inl (MetricError ''cider'') else Inr (Scalar 2))
     [''hyp.txt'' \<mapsto> ['' x''], ''ref.txt'' \<mapsto> [''a '']]
     ''hyp.txt'' [''ref.txt''] []
   = (Inl (MetricError ''cider''),
      [Compute (Bleu 4) [(0, [''a''])] [(0, [''x''])],
       Print ''Bleu_1'' 1, Print ''Bleu_2'' 1, Print ''Bleu_3'' 1, Print ''Bleu_4'' 1,
       Compute Meteor [(0, [''a''])] [(0, [''x''])], Print ''METEOR'' 2, Close Meteor,
       Compute Rouge [(0, [''a''])] [(0, [''x''])], Print ''ROUGE_L'' 2,
       Compute Cider [(0, [''a''])] [(0, [''x''])]])
   \<and> (\<exists>es. new_events []
         (snd (compute_metrics
           (\<lambda>t s refs hyps. if s = Bleu 4 then Inr (Vector [1, 1, 1, 1 :: nat])
                      else if s = Cider then Inl (MetricError ''cider'') else Inr (Scalar 2))
           [''hyp.txt'' \<mapsto> ['' x''], ''ref.txt'' \<mapsto> [''a '']]
           ''hyp.txt'' [''ref.txt''] [])) =
         Compute (Bleu 4) [(0, [''a''])] [(0, [''x''])] #
         [Print ''Bleu_1'' 1, Print ''Bleu_2'' 1, Print ''Bleu_3'' 1, Print ''Bleu_4'' 1] @
         [Compute Meteor [(0, [''a''])] [(0, [''x''])], Print ''METEOR'' 2, Close Meteor,
          Compute Rouge [(0, [''a''])] [(0, [''x''])]] @ es
         \<and> (\<forall>e\<in>set es. \<not> is_close e))"
proof -
  let ?cs = "\<lambda>(t :: nat event list) s (refs :: string list dict) (hyps :: string list dict).
     if s = Bleu 4 then Inr (Vector [1, 1, 1, 1 :: nat])
     else if s = Meteor then Inr (Scalar 2) else Inl (MetricError ''rouge'') :: error + nat score"
  let ?refs = "[(0, [''a cat sat''])] :: string list dict"
  let ?hyps = "[(0, [''the cat sat''])] :: string list dict"
  have r: "?refs = [(0, map str_strip (case Seq [''a cat sat''] of
                      Str s \<Rightarrow> str_split s delimiter | Seq xs \<Rightarrow> xs))]"
    by (simp add: str_strip_def is_space_def)
  have h: "?hyps = [(0, [str_strip ''the cat sat''])]"
    by (simp add: str_strip_def is_space_def)
  have b: "?cs [] (Bleu 4) ?refs ?hyps = Inr (Vector [1, 1, 1, 1])"
    by simp
  have m: "?cs ([] @ [Compute (Bleu 4) ?refs ?hyps]) Meteor ?refs ?hyps = Inr (Scalar 2)"
    by simp
  have run: "compute_individual_metrics ?cs (Seq [''a cat sat'']) (Str ''the cat sat'') []
   = (Inl (MetricError ''rouge''),
      [Compute (Bleu 4) ?refs ?hyps, Compute Meteor ?refs ?hyps, Close Meteor,
       Compute Rouge ?refs ?hyps])"
    by (simp add: compute_individual_metrics_def legacy_scorers_def store_def
        str_strip_def is_space_def Let_def)
  note c = close_once_meteor_has_answered [THEN conjunct1, THEN mp,
      OF conjI [OF r conjI [OF h conjI [OF b m]]]]
  let ?bcs = "\<lambda>(t :: nat event list) s (refs :: string list dict) (hyps :: string list dict).
     if s = Bleu 4 then Inr (Vector [1, 1, 1, 1 :: nat])
     else if s = Cider then Inl (MetricError ''cider'') else Inr (Scalar 2) :: error + nat score"
  let ?fs = "[''hyp.txt'' \<mapsto> ['' x''], ''ref.txt'' \<mapsto> [''a '']]"
  let ?R = "[(0, [''a''])] :: string list dict"
  let ?H = "[(0, [''x''])] :: string list dict"
  let ?pr = "[Print ''Bleu_1'' 1, Print ''Bleu_2'' 1, Print ''Bleu_3'' 1, Print ''Bleu_4'' (1::nat)]"
  have z: "zip_star [[''a '']] = [[''a '']]"
    by (simp add: zip_star.simps)
  have s: "str_strip ''a '' = ''a''" "str_strip '' x'' = ''x''"
    by (simp_all add: str_strip_def is_space_def)
  have r1: "readlines ?fs ''hyp.txt'' = Inr ['' x'']"
    by (simp add: readlines_def)
  have r2: "read_references ?fs [''ref.txt''] [] = Inr [[''a '']]"
    by (simp add: readlines_def)
  have len: "length (zip_star [[''a '']]) = length ['' x'']"
    by (simp add: z)
  have br: "?R = enumerate 0 (map (map strip) (zip_star [[''a '']]))"
    by (simp add: z strip_def s)
  have bh: "?H = enumerate 0 (map (\<lambda>lines. [str_strip lines]) ['' x''])"
    by (simp add: s)
  have pr: "?pr = map (\<lambda>(sc, m). Print m sc)
      (zip [1, 1, 1, 1] [''Bleu_1'', ''Bleu_2'', ''Bleu_3'', ''Bleu_4''])"
    by simp
  have bb: "?bcs [] (Bleu 4) ?R ?H = Inr (Vector [1, 1, 1, 1])"
    by simp
  have bm: "?bcs ([] @ Compute (Bleu 4) ?R ?H # ?pr) Meteor ?R ?H = Inr (Scalar 2)"
    by simp
  have brun: "compute_metrics ?bcs ?fs ''hyp.txt'' [''ref.txt''] []
   = (Inl (MetricError ''cider''),
      [Compute (Bleu 4) ?R ?H,
       Print ''Bleu_1'' 1, Print ''Bleu_2'' 1, Print ''Bleu_3'' 1, Print ''Bleu_4'' 1,
       Compute Meteor ?R ?H, Print ''METEOR'' 2, Close Meteor,
       Compute Rouge ?R ?H, Print ''ROUGE_L'' 2,
       Compute Cider ?R ?H])"
    by (simp add: compute_metrics_def readlines_def legacy_scorers_def store_def Let_def
        z strip_def s)
  note d = close_once_meteor_has_answered [THEN conjunct2, THEN conjunct1, THEN mp,
      OF conjI [OF r1 conjI [OF r2 conjI [OF len conjI [OF br conjI [OF bh
         conjI [OF pr conjI [OF bb bm]]]]]]]]
  show ?thesis
    by (intro conjI run c brun d)
qed

end
